theory Spec2Isabelle
  imports Main "HOL-Library.AList"
begin

section \<open>JavaScript values\<close>

text \<open>
  Entity identifiers (express IDs) and slot indices are JavaScript numbers that only
  ever hold integers; they are modelled as \<^typ>\<open>int\<close>. A number of the model stands
  for a JavaScript number when it is a safe integer (of absolute value below \<open>2^53\<close>).
  A string is a list of UTF-16 code units; the model has the strings whose code units are
  below 256, a \<^typ>\<open>char\<close> being such a code unit (\<open>CHR 0xA0\<close> is the no-break
  space U+00A0). A thrown exception is a value of the type \<open>error\<close> declared below,
  and a function that can throw returns \<open>error + 'a\<close>.
\<close>

subsection \<open>Number to string and back\<close>

text \<open>
  \<open>ToString\<close> is the conversion applied when a number is used as a property key
  (\<open>object[expressID]\<close>) and by \<open>modelID.toString()\<close>: decimal digits, a leading minus
  sign for negative numbers. This is what JavaScript prints for an integer of absolute
  value below \<open>10^21\<close>, so for every safe integer; from \<open>10^21\<close> on JavaScript prints
  exponent notation, which \<open>ToString\<close> does not follow. \<open>Number\<close> is \<open>Number(key)\<close> on the strings that denote an
  integer in decimal notation (leading zeros allowed, as in JavaScript); on every other
  string JavaScript yields \<open>NaN\<close> or a number that is not a decimal integer literal,
  which is outside the integer model and reported as \<open>None\<close>.
\<close>

definition digitChar :: "nat \<Rightarrow> char" where
  "digitChar d = char_of (48 + d)"

definition isDigit :: "char \<Rightarrow> bool" where
  "isDigit c = (48 \<le> (of_char c :: nat) \<and> (of_char c :: nat) \<le> 57)"

definition digitVal :: "char \<Rightarrow> nat" where
  "digitVal c = of_char c - 48"

fun natToString :: "nat \<Rightarrow> string" where
  "natToString n = (if n < 10 then [digitChar n] else natToString (n div 10) @ [digitChar (n mod 10)])"

declare natToString.simps [simp del]

definition ToString :: "int \<Rightarrow> string" where
  "ToString i = (if i < 0 then CHR ''-'' # natToString (nat (- i)) else natToString (nat i))"

fun digitsToNat :: "nat \<Rightarrow> string \<Rightarrow> nat option" where
  "digitsToNat acc [] = Some acc"
| "digitsToNat acc (c # cs) = (if isDigit c then digitsToNat (acc * 10 + digitVal c) cs else None)"

definition stringToNat :: "string \<Rightarrow> nat option" where
  "stringToNat s = (if s = [] then None else digitsToNat 0 s)"

definition Number :: "string \<Rightarrow> int option" where
  "Number s = (case s of
       [] \<Rightarrow> None
     | c # cs \<Rightarrow> if c = CHR ''-'' then map_option (\<lambda>n. - int n) (stringToNat cs)
                else map_option int (stringToNat s))"

subsection \<open>Dynamically typed values\<close>

text \<open>
  Attribute bags are values of type \<open>any\<close>. An object is the list of its own properties
  in property order. Reading a property of \<open>null\<close> or \<open>undefined\<close> throws a
  \<open>TypeError\<close>. \<open>NotModelled\<close> is not a JavaScript exception: it marks an input on
  which a value that the TypeScript types declare to be a \<open>number\<close> is not one.
\<close>

datatype js =
    JUndefined | JNull | JBool bool | JNum int | JStr string
  | JArr "js list" | JObj "(string \<times> js) list"

datatype error = Error string | TypeError | NotModelled

definition getProp :: "js \<Rightarrow> string \<Rightarrow> error + js" where
  "getProp v k = (case v of
       JUndefined \<Rightarrow> Inl TypeError
     | JNull \<Rightarrow> Inl TypeError
     | JObj kvs \<Rightarrow> Inr (case map_of kvs k of Some x \<Rightarrow> x | None \<Rightarrow> JUndefined)
     | JArr xs \<Rightarrow> Inr (if k = ''length'' then JNum (int (length xs)) else JUndefined)
     | JStr cs \<Rightarrow> Inr (if k = ''length'' then JNum (int (length cs)) else JUndefined)
     | _ \<Rightarrow> Inr JUndefined)"

definition isNullish :: "js \<Rightarrow> bool" where
  "isNullish v = (v = JUndefined \<or> v = JNull)"

definition optProp :: "js \<Rightarrow> string \<Rightarrow> js" where
  \<comment> \<open>\<open>v?.k\<close>\<close>
  "optProp v k = (if isNullish v then JUndefined else (case getProp v k of Inr x \<Rightarrow> x | Inl _ \<Rightarrow> JUndefined))"

definition truthy :: "js \<Rightarrow> bool" where
  "truthy v = (case v of
       JUndefined \<Rightarrow> False | JNull \<Rightarrow> False | JBool b \<Rightarrow> b
     | JNum n \<Rightarrow> n \<noteq> 0 | JStr cs \<Rightarrow> cs \<noteq> [] | _ \<Rightarrow> True)"

definition objectKeys :: "js \<Rightarrow> error + string list" where
  "objectKeys v = (case v of
       JUndefined \<Rightarrow> Inl TypeError
     | JNull \<Rightarrow> Inl TypeError
     | JObj kvs \<Rightarrow> Inr (map fst kvs)
     | JArr xs \<Rightarrow> Inr (map (\<lambda>i. ToString (int i)) [0..<length xs])
     | JStr cs \<Rightarrow> Inr (map (\<lambda>i. ToString (int i)) [0..<length cs])
     | _ \<Rightarrow> Inr [])"

definition asNumber :: "js \<Rightarrow> error + int" where
  "asNumber v = (case v of JNum n \<Rightarrow> Inr n | _ \<Rightarrow> Inl NotModelled)"

definition startsWith :: "string \<Rightarrow> string \<Rightarrow> bool" where
  "startsWith s p = (take (length p) s = p)"

definition endsWith :: "string \<Rightarrow> string \<Rightarrow> bool" where
  "endsWith s p = (length p \<le> length s \<and> drop (length s - length p) s = p)"

text \<open>Sequencing of computations that may throw, and a loop over a list of them.\<close>

definition bindE :: "error + 'a \<Rightarrow> ('a \<Rightarrow> error + 'b) \<Rightarrow> error + 'b" where
  "bindE r f = (case r of Inl e \<Rightarrow> Inl e | Inr x \<Rightarrow> f x)"

fun mapE :: "('a \<Rightarrow> error + 'b) \<Rightarrow> 'a list \<Rightarrow> error + 'b list" where
  "mapE f [] = Inr []"
| "mapE f (x # xs) = bindE (f x) (\<lambda>y. bindE (mapE f xs) (\<lambda>ys. Inr (y # ys)))"

fun foldE :: "('a \<Rightarrow> 's \<Rightarrow> error + 's) \<Rightarrow> 'a list \<Rightarrow> 's \<Rightarrow> error + 's" where
  "foldE f [] s = Inr s"
| "foldE f (x # xs) s = bindE (f x s) (foldE f xs)"

section \<open>IfcRelationsIndexer\<close>

subsection \<open>Maps with insertion order\<close>

text \<open>
  A JavaScript \<open>Map\<close> is the list of its entries in insertion order, with distinct keys:
  \<open>set\<close> on a present key replaces the value where it stands, on a new key appends.
\<close>

definition Map_get :: "('k \<times> 'v) list \<Rightarrow> 'k \<Rightarrow> 'v option" where
  "Map_get m k = map_of m k"

definition Map_set :: "('k \<times> 'v) list \<Rightarrow> 'k \<Rightarrow> 'v \<Rightarrow> ('k \<times> 'v) list" where
  "Map_set m k v = AList.update k v m"

type_synonym Relations = "(int \<times> int list) list"
type_synonym RelationsMap = "(int \<times> Relations) list"

subsection \<open>The static tables\<close>

fun indexOfFrom :: "'a list \<Rightarrow> 'a \<Rightarrow> int \<Rightarrow> int" where
  "indexOfFrom [] x i = - 1"
| "indexOfFrom (y # ys) x i = (if y = x then i else indexOfFrom ys x (i + 1))"

definition indexOf :: "'a list \<Rightarrow> 'a \<Rightarrow> int" where
  "indexOf xs x = indexOfFrom xs x 0"

definition inverseAttributes :: "string list" where
  "inverseAttributes =
    [''IsDecomposedBy'', ''Decomposes'', ''AssociatedTo'', ''HasAssociations'',
     ''ClassificationForObjects'', ''IsGroupedBy'', ''HasAssignments'', ''IsDefinedBy'',
     ''DefinesOcurrence'', ''IsTypedBy'', ''Types'', ''Defines'', ''ContainedInStructure'',
     ''ContainsElements'']"

datatype ifcRel =
    IFCRELAGGREGATES | IFCRELASSOCIATESMATERIAL | IFCRELASSOCIATESCLASSIFICATION
  | IFCRELASSIGNSTOGROUP | IFCRELDEFINESBYPROPERTIES | IFCRELDEFINESBYTYPE
  | IFCRELDEFINESBYTEMPLATE | IFCRELCONTAINEDINSPATIALSTRUCTURE

definition ifcRels :: "ifcRel list" where
  "ifcRels =
    [IFCRELAGGREGATES, IFCRELASSOCIATESMATERIAL, IFCRELASSOCIATESCLASSIFICATION,
     IFCRELASSIGNSTOGROUP, IFCRELDEFINESBYPROPERTIES, IFCRELDEFINESBYTYPE,
     IFCRELDEFINESBYTEMPLATE, IFCRELCONTAINEDINSPATIALSTRUCTURE]"

text \<open>
  The table \<open>relToAttributesMap\<close> (\<open>./src/relToAttributesMap\<close>) is not among the sources.
  Every function below takes it as the parameter \<open>relToAttributesMap\<close>: a partial map
  from relation kinds to the pair of inverse attribute names.
\<close>

record InverseAttributePair =
  forRelating :: string
  forRelated :: string

type_synonym RelToAttributesMap = "ifcRel \<Rightarrow> InverseAttributePair option"

subsection \<open>Models and the indexer's state\<close>

record FragmentsGroup =
  uuid :: string
  hasProperties :: bool
  relationRecords :: "ifcRel \<Rightarrow> (int \<times> int list) list"
  getProperties :: "int \<Rightarrow> js"
  getAllPropertiesOfType :: "int \<Rightarrow> (int \<times> js) list"

record IfcAPI =
  GetLineIDsWithType :: "int \<Rightarrow> ifcRel \<Rightarrow> int list"
  getItemProperties :: "int \<Rightarrow> int \<Rightarrow> js"

record IfcRelationsIndexer =
  relationMaps :: "string \<Rightarrow> RelationsMap option"
  onRelationsIndexed :: "(string \<times> RelationsMap) list"

definition setRelationMap :: "IfcRelationsIndexer \<Rightarrow> FragmentsGroup \<Rightarrow> RelationsMap \<Rightarrow> IfcRelationsIndexer" where
  "setRelationMap indexer model relationMap =
     indexer\<lparr> relationMaps := (relationMaps indexer)(uuid model \<mapsto> relationMap),
              onRelationsIndexed := onRelationsIndexed indexer @ [(uuid model, relationMap)] \<rparr>"

subsection \<open>The callback of process: indexing one relation record\<close>

text \<open>
  The two blocks \<open>// forRelating\<close> and \<open>// forRelated\<close> of the callback that \<open>process\<close>
  hands to \<open>getRelationMap\<close> (lines 139 to 155). \<open>processFromWebIfc\<close> has blocks of
  its own (lines 196 to 212), which are translated with it below. Arrays are values here. In the source the forward
  slot keeps a reference to the array \<open>relatedIDs\<close>, which is a new array for every
  record, and \<open>push\<close> changes an inverse slot's array in place, which is either a new
  array (\<open>?? []\<close>) or the array already in that slot. So every array is referenced from
  one slot only, and changing it in place is replacing the slot's value. The one
  exception is a loop that pushes into the array it iterates over, when the relating
  entity is among the related ones and the forward and the inverse attribute have the
  same index. The conditions \<open>knownRoles\<close> and \<open>separatedRoles\<close> below exclude it;
  the section on the arrays in a store proves both statements.
\<close>

definition setForRelating :: "RelationsMap \<Rightarrow> int \<Rightarrow> int \<Rightarrow> int list \<Rightarrow> RelationsMap" where
  "setForRelating relationsMap relatingID index relatedIDs =
     (let currentMap = (case Map_get relationsMap relatingID of Some m \<Rightarrow> m | None \<Rightarrow> []);
          currentMap = Map_set currentMap index relatedIDs
      in Map_set relationsMap relatingID currentMap)"

definition pushForRelated :: "int \<Rightarrow> int \<Rightarrow> int \<Rightarrow> RelationsMap \<Rightarrow> RelationsMap" where
  "pushForRelated relatingID index id' relationsMap =
     (let currentMap = (case Map_get relationsMap id' of Some m \<Rightarrow> m | None \<Rightarrow> []);
          relations = (case Map_get currentMap index of Some r \<Rightarrow> r | None \<Rightarrow> []);
          relations = relations @ [relatingID];
          currentMap = Map_set currentMap index relations
      in Map_set relationsMap id' currentMap)"

definition indexRelation :: "InverseAttributePair \<Rightarrow> int \<Rightarrow> int list \<Rightarrow> RelationsMap \<Rightarrow> RelationsMap" where
  "indexRelation inverseAttrs relatingID relatedIDs relationsMap =
     (let related = forRelated inverseAttrs; relating = forRelating inverseAttrs;
          relationsMap = setForRelating relationsMap relatingID (indexOf inverseAttributes relating) relatedIDs
      in fold (pushForRelated relatingID (indexOf inverseAttributes related)) relatedIDs relationsMap)"

subsection \<open>process\<close>

definition getRelationMap ::
  "FragmentsGroup \<Rightarrow> ifcRel \<Rightarrow> (int \<Rightarrow> int list \<Rightarrow> 's \<Rightarrow> 's) \<Rightarrow> 's \<Rightarrow> 's" where
  \<comment> \<open>Modelled from the spec: \<open>IfcPropertiesUtils.getRelationMap\<close> (\<open>../Utils\<close>) is not among
     the sources. By the spec it invokes the per-record callback for every relation entity
     of the given kind found in the already-parsed model; \<open>relationRecords model rel\<close> is
     the sequence of those records, as pairs of the relating ID and the related IDs.\<close>
  "getRelationMap model rel onElementsFound s =
     fold (\<lambda>(relatingID, relatedIDs). onElementsFound relatingID relatedIDs) (relationRecords model rel) s"

definition processCallback :: "RelToAttributesMap \<Rightarrow> ifcRel \<Rightarrow> int \<Rightarrow> int list \<Rightarrow> RelationsMap \<Rightarrow> RelationsMap" where
  "processCallback relToAttributesMap rel relatingID relatedIDs relationsMap =
     (case relToAttributesMap rel of
        None \<Rightarrow> relationsMap
      | Some inverseAttrs \<Rightarrow> indexRelation inverseAttrs relatingID relatedIDs relationsMap)"

definition process ::
  "RelToAttributesMap \<Rightarrow> IfcRelationsIndexer \<Rightarrow> FragmentsGroup \<Rightarrow> (error + RelationsMap) \<times> IfcRelationsIndexer" where
  "process relToAttributesMap indexer model =
     (if \<not> hasProperties model then (Inl (Error ''FragmentsGroup properties not found''), indexer)
      else case relationMaps indexer (uuid model) of
        Some relationsMap \<Rightarrow> (Inr relationsMap, indexer)
      | None \<Rightarrow>
          (let relationsMap =
                 fold (\<lambda>rel. getRelationMap model rel (processCallback relToAttributesMap rel)) ifcRels []
           in (Inr relationsMap, setRelationMap indexer model relationsMap)))"

subsection \<open>processFromWebIfc\<close>

definition webIfcRelated :: "string \<Rightarrow> int \<Rightarrow> int \<Rightarrow> RelationsMap \<Rightarrow> RelationsMap" where
  \<comment> \<open>the body of the loop \<open>for (const id of relatedIDs)\<close> of \<open>processFromWebIfc\<close>\<close>
  "webIfcRelated related relatingID id' relationsMap =
     (let currentMap = (case Map_get relationsMap id' of Some m \<Rightarrow> m | None \<Rightarrow> []);
          index = indexOf inverseAttributes related;
          relations = (case Map_get currentMap index of Some r \<Rightarrow> r | None \<Rightarrow> []);
          relations = relations @ [relatingID];
          currentMap = Map_set currentMap index relations
      in Map_set relationsMap id' currentMap)"

definition webIfcRecord ::
  "InverseAttributePair \<Rightarrow> IfcAPI \<Rightarrow> int \<Rightarrow> int \<Rightarrow> RelationsMap \<Rightarrow> error + RelationsMap" where
  \<comment> \<open>the body of the loop over \<open>relExpressIDs\<close>\<close>
  "webIfcRecord relInverseAttributes ifcApi modelID lineID relationsMap =
     (let related = forRelated relInverseAttributes; relating = forRelating relInverseAttributes;
          relAttrs = getItemProperties ifcApi modelID lineID in
      bindE (objectKeys relAttrs) (\<lambda>keys.
        case (find (\<lambda>key. startsWith key ''Relating'') keys,
              find (\<lambda>key. startsWith key ''Related'') keys) of
          (Some relatingKey, Some relatedKey) \<Rightarrow>
            bindE (getProp relAttrs relatingKey) (\<lambda>relatingAttr.
            bindE (getProp relatingAttr ''value'') (\<lambda>relatingID.
            bindE (getProp relAttrs relatedKey) (\<lambda>relatedAttr.
            bindE (case relatedAttr of
                     JArr els \<Rightarrow> mapE (\<lambda>el. getProp el ''value'') els
                   | _ \<Rightarrow> Inl TypeError) (\<lambda>relatedIDs.
            bindE (asNumber relatingID) (\<lambda>relatingID.
            bindE (mapE asNumber relatedIDs) (\<lambda>relatedIDs.
              let currentMap = (case Map_get relationsMap relatingID of Some m \<Rightarrow> m | None \<Rightarrow> []);
                  index = indexOf inverseAttributes relating;
                  currentMap = Map_set currentMap index relatedIDs;
                  relationsMap = Map_set relationsMap relatingID currentMap
              in Inr (fold (webIfcRelated related relatingID) relatedIDs relationsMap)))))))
        | _ \<Rightarrow> Inr relationsMap))"

definition webIfcRel :: "RelToAttributesMap \<Rightarrow> IfcAPI \<Rightarrow> int \<Rightarrow> ifcRel \<Rightarrow> RelationsMap \<Rightarrow> error + RelationsMap" where
  \<comment> \<open>the body of the loop over \<open>_ifcRels\<close>\<close>
  "webIfcRel relToAttributesMap ifcApi modelID relType relationsMap =
     (case relToAttributesMap relType of
        None \<Rightarrow> Inr relationsMap
      | Some relInverseAttributes \<Rightarrow>
          foldE (webIfcRecord relInverseAttributes ifcApi modelID)
            (GetLineIDsWithType ifcApi modelID relType) relationsMap)"

definition processFromWebIfc ::
  "RelToAttributesMap \<Rightarrow> IfcRelationsIndexer \<Rightarrow> IfcAPI \<Rightarrow> int \<Rightarrow> (error + RelationsMap) \<times> IfcRelationsIndexer" where
  "processFromWebIfc relToAttributesMap indexer ifcApi modelID =
     (case foldE (webIfcRel relToAttributesMap ifcApi modelID) ifcRels [] of
        Inl e \<Rightarrow> (Inl e, indexer)
      | Inr relationsMap \<Rightarrow>
          (Inr relationsMap,
           indexer\<lparr> onRelationsIndexed := onRelationsIndexed indexer @ [(ToString modelID, relationsMap)] \<rparr>))"

subsection \<open>getEntityRelations\<close>

text \<open>The result \<open>None\<close> is the source's \<open>null\<close>.\<close>

definition getEntityRelations ::
  "IfcRelationsIndexer \<Rightarrow> FragmentsGroup \<Rightarrow> int \<Rightarrow> string \<Rightarrow> int list option" where
  "getEntityRelations indexer model expressID relationName =
     (case relationMaps indexer (uuid model) of
        None \<Rightarrow> None
      | Some indexMap \<Rightarrow>
          (let entityRelations = Map_get indexMap expressID;
               attributeIndex = indexOf inverseAttributes relationName
           in case entityRelations of
                None \<Rightarrow> None
              | Some slots \<Rightarrow>
                  if attributeIndex = - 1 then None
                  else (case Map_get slots attributeIndex of None \<Rightarrow> None | Some relations \<Rightarrow> Some relations)))"

subsection \<open>serializeRelations and getRelationsMapFromJSON\<close>

text \<open>
  \<open>serializeRelations\<close> fills a plain object whose keys are the numbers turned into
  strings. An object is the list of its own properties in property order: keys that are
  array indices (canonical decimal integers from 0 to 2^32 - 2) come first in ascending
  numeric order, then the other keys in insertion order; \<open>obj_set\<close> places a new key
  accordingly.
\<close>

definition isArrayIndex :: "string \<Rightarrow> bool" where
  "isArrayIndex k = (case Number k of
       Some n \<Rightarrow> 0 \<le> n \<and> n < 4294967295 \<and> ToString n = k
     | None \<Rightarrow> False)"

definition indexLess :: "string \<Rightarrow> string \<Rightarrow> bool" where
  "indexLess k k' = (case (Number k, Number k') of (Some a, Some b) \<Rightarrow> a < b | _ \<Rightarrow> False)"

fun insertIndexKey :: "string \<Rightarrow> 'v \<Rightarrow> (string \<times> 'v) list \<Rightarrow> (string \<times> 'v) list" where
  "insertIndexKey k v [] = [(k, v)]"
| "insertIndexKey k v ((k', v') # kvs) =
     (if isArrayIndex k' \<and> indexLess k' k then (k', v') # insertIndexKey k v kvs
      else (k, v) # (k', v') # kvs)"

definition obj_get :: "(string \<times> 'v) list \<Rightarrow> string \<Rightarrow> 'v option" where
  "obj_get obj k = map_of obj k"

definition obj_set :: "(string \<times> 'v) list \<Rightarrow> string \<Rightarrow> 'v \<Rightarrow> (string \<times> 'v) list" where
  "obj_set obj k v =
     (if k \<in> set (map fst obj) then AList.update k v obj
      else if isArrayIndex k then insertIndexKey k v obj
      else obj @ [(k, v)])"

text \<open>
  \<open>JSON.stringify\<close> and \<open>JSON.parse\<close> belong to the JavaScript engine. The text is
  represented by the document it denotes, an object of objects of integer arrays:
  parsing what was printed yields the same keys in the same order with the same arrays.
\<close>

datatype json = JSON "(string \<times> (string \<times> int list) list) list"

definition JSON_stringify :: "(string \<times> (string \<times> int list) list) list \<Rightarrow> json" where
  "JSON_stringify object = JSON object"

definition JSON_parse :: "json \<Rightarrow> (string \<times> (string \<times> int list) list) list" where
  "JSON_parse text = (case text of JSON object \<Rightarrow> object)"

definition serializeRelation ::
  "string \<Rightarrow> int \<times> int list \<Rightarrow> (string \<times> (string \<times> int list) list) list \<Rightarrow> (string \<times> (string \<times> int list) list) list" where
  \<comment> \<open>\<open>object[expressID][relationID] = relationEntities\<close>; the object under \<open>expressID\<close>
     exists, \<open>serializeEntity\<close> has created it\<close>
  "serializeRelation key entry object =
     (case entry of (relationID, relationEntities) \<Rightarrow>
        (case obj_get object key of
           None \<Rightarrow> object
         | Some slots \<Rightarrow> obj_set object key (obj_set slots (ToString relationID) relationEntities)))"

definition serializeEntity ::
  "int \<times> Relations \<Rightarrow> (string \<times> (string \<times> int list) list) list \<Rightarrow> (string \<times> (string \<times> int list) list) list" where
  "serializeEntity entry object =
     (case entry of (expressID, relations) \<Rightarrow>
        (let key = ToString expressID;
             object = (if obj_get object key = None then obj_set object key [] else object)
         in fold (serializeRelation key) relations object))"

definition serializeRelations :: "RelationsMap \<Rightarrow> json" where
  "serializeRelations relationMap = JSON_stringify (fold serializeEntity relationMap [])"

text \<open>
  \<open>getRelationsMapFromJSON\<close>: the two \<open>for ... in\<close> loops, with the maps built so far
  as accumulators. The result is \<open>None\<close> when \<open>Number\<close> of a key is outside the integer
  model (see \<open>Number\<close>); the source does not fail there.
\<close>

fun relationMapFrom :: "(string \<times> int list) list \<Rightarrow> Relations \<Rightarrow> Relations option" where
  "relationMapFrom [] relationMap = Some relationMap"
| "relationMapFrom ((relationID, ids) # rest) relationMap =
     (case Number relationID of
        None \<Rightarrow> None
      | Some n \<Rightarrow> relationMapFrom rest (Map_set relationMap n ids))"

fun indexMapFrom :: "(string \<times> (string \<times> int list) list) list \<Rightarrow> RelationsMap \<Rightarrow> RelationsMap option" where
  "indexMapFrom [] indexMap = Some indexMap"
| "indexMapFrom ((expressID, expressIDRelations) # rest) indexMap =
     (case relationMapFrom expressIDRelations [] of
        None \<Rightarrow> None
      | Some relationMap \<Rightarrow>
          (case Number expressID of
             None \<Rightarrow> None
           | Some n \<Rightarrow> indexMapFrom rest (Map_set indexMap n relationMap)))"

definition getRelationsMapFromJSON :: "json \<Rightarrow> RelationsMap option" where
  "getRelationsMapFromJSON text = indexMapFrom (JSON_parse text) []"

section \<open>IDSProperty\<close>

text \<open>
  The property facet of the IDS specifications (\<open>IDSProperty\<close>). The type codes
  stand for the constants of web-ifc, which is not part of the sources; the development
  uses only that they are pairwise distinct numbers.
\<close>

definition IFCPROPERTYSET :: int where "IFCPROPERTYSET = 1451395588"

definition IFCELEMENTQUANTITY :: int where "IFCELEMENTQUANTITY = 1883228015"

definition IFCCOMPLEXPROPERTY :: int where "IFCCOMPLEXPROPERTY = 2542286263"

definition IFCPHYSICALCOMPLEXQUANTITY :: int where "IFCPHYSICALCOMPLEXQUANTITY = 3021840470"

definition IFCPROPERTYLISTVALUE :: int where "IFCPROPERTYLISTVALUE = 2752243245"

definition IFCPROPERTYENUMERATEDVALUE :: int where "IFCPROPERTYENUMERATEDVALUE = 4166981789"

text \<open>
  More JavaScript: \<open>===\<close> (two distinct objects or arrays are never equal, and the
  values compared here never are the same object), \<open>??\<close>, iteration with
  \<open>for ... of\<close>, assignment to a property, \<open>String(v)\<close> and \<open>trim\<close>.
  \<open>String.prototype.trim\<close> strips the code units of the productions \<open>WhiteSpace\<close> and
  \<open>LineTerminator\<close> of ECMAScript from both ends; \<open>isWhiteSpace\<close> is the table of
  these code units (TAB, LF, VT, FF, CR, space, no-break space U+00A0, U+1680, U+2000
  to U+200A, U+2028, U+2029, U+202F, U+205F, U+3000 and U+FEFF), of which the first seven
  occur in the strings of the model.
\<close>

definition strictEquals :: "js \<Rightarrow> js \<Rightarrow> bool" where
  "strictEquals a b = (case (a, b) of
       (JUndefined, JUndefined) \<Rightarrow> True
     | (JNull, JNull) \<Rightarrow> True
     | (JBool x, JBool y) \<Rightarrow> x = y
     | (JNum x, JNum y) \<Rightarrow> x = y
     | (JStr x, JStr y) \<Rightarrow> x = y
     | _ \<Rightarrow> False)"

definition nullish :: "js \<Rightarrow> js \<Rightarrow> js" where
  \<comment> \<open>\<open>a ?? b\<close>\<close>
  "nullish a b = (if isNullish a then b else a)"

definition iterate :: "js \<Rightarrow> error + js list" where
  \<comment> \<open>the elements that \<open>for ... of\<close> visits\<close>
  "iterate v = (case v of
       JArr xs \<Rightarrow> Inr xs
     | JStr cs \<Rightarrow> Inr (map (\<lambda>c. JStr [c]) cs)
     | _ \<Rightarrow> Inl TypeError)"

definition setProp :: "js \<Rightarrow> string \<Rightarrow> js \<Rightarrow> js" where
  "setProp v k x = (case v of JObj kvs \<Rightarrow> JObj (obj_set kvs k x) | _ \<Rightarrow> v)"

fun joinWith :: "string \<Rightarrow> string list \<Rightarrow> string" where
  "joinWith sep [] = []"
| "joinWith sep [x] = x"
| "joinWith sep (x # y # ys) = x @ sep @ joinWith sep (y # ys)"

fun jsString :: "js \<Rightarrow> string" where
  "jsString JUndefined = ''undefined''"
| "jsString JNull = ''null''"
| "jsString (JBool b) = (if b then ''true'' else ''false'')"
| "jsString (JNum n) = ToString n"
| "jsString (JStr s) = s"
| "jsString (JArr xs) = joinWith '','' (map (\<lambda>x. if x = JUndefined \<or> x = JNull then [] else jsString x) xs)"
| "jsString (JObj kvs) = ''[object Object]''"

definition isWhiteSpace :: "int \<Rightarrow> bool" where
  "isWhiteSpace u =
     (u \<in> set [0x09, 0x0A, 0x0B, 0x0C, 0x0D, 0x20, 0xA0, 0x1680,
                0x2000, 0x2001, 0x2002, 0x2003, 0x2004, 0x2005, 0x2006, 0x2007, 0x2008, 0x2009, 0x200A,
                0x2028, 0x2029, 0x202F, 0x205F, 0x3000, 0xFEFF])"

definition isSpace :: "char \<Rightarrow> bool" where
  "isSpace c = isWhiteSpace (of_char c)"

definition trim :: "string \<Rightarrow> string" where
  "trim s = rev (dropWhile isSpace (rev (dropWhile isSpace s)))"

subsection \<open>The facet and its checks\<close>

text \<open>
  The facet, its parameters and the check records. The field \<open>facetValue\<close> is the
  source's optional \<open>value\<close>.
\<close>

record IDSFacetParameter =
  paramType :: string
  parameter :: js

datatype Cardinality = required | prohibited | optional

record IDSCheck =
  checkParameter :: string
  currentValue :: js
  requiredValue :: js
  checkPass :: bool

record IDSCheckResult =
  resultGuid :: js
  resultExpressID :: int
  resultPass :: bool
  resultChecks :: "IDSCheck list"
  resultCardinality :: Cardinality

record IDSProperty =
  propertySet :: IDSFacetParameter
  baseName :: IDSFacetParameter
  facetValue :: "IDSFacetParameter option"
  dataType :: "string option"
  uri :: "string option"
  cardinality :: Cardinality

type_synonym Matcher = "js \<Rightarrow> IDSFacetParameter \<Rightarrow> string \<Rightarrow> bool"

definition evalRequirement ::
  "Matcher \<Rightarrow> js \<Rightarrow> IDSFacetParameter \<Rightarrow> string \<Rightarrow> IDSCheck list \<Rightarrow> bool \<times> IDSCheck list" where
  \<comment> \<open>Modelled from the spec: \<open>IDSFacet.evalRequirement\<close> (\<open>./Facet\<close>) is not among the sources.
     By the spec the matcher decides whether the candidate value satisfies the parameter,
     and its evidence-producing variant, the call with a list of checks, also appends one
     check record with the label, the value seen, the value required and the verdict. The
     matcher itself is the parameter \<open>matches\<close>.\<close>
  "evalRequirement matches v facetParameter label cs =
     (let result = matches v facetParameter label
      in (result, cs @ [\<lparr> checkParameter = label, currentValue = v,
                           requiredValue = parameter facetParameter, checkPass = result \<rparr>]))"

definition unsupportedTypes :: "int list" where
  "unsupportedTypes = [IFCCOMPLEXPROPERTY, IFCPHYSICALCOMPLEXQUANTITY]"

definition getItemsAttrName :: "js \<Rightarrow> string option" where
  "getItemsAttrName t =
     (let propsListName = None;
          propsListName = (if strictEquals t (JNum IFCPROPERTYSET) then Some ''HasProperties'' else propsListName);
          propsListName = (if strictEquals t (JNum IFCELEMENTQUANTITY) then Some ''Quantities'' else propsListName)
      in propsListName)"

definition getValueKey :: "js \<Rightarrow> error + string option" where
  "getValueKey attrs =
     bindE (objectKeys attrs) (\<lambda>keys.
       Inr (find (\<lambda>name. endsWith name ''Value'' \<or> endsWith name ''Values'') keys))"

definition modelGetProperties :: "FragmentsGroup \<Rightarrow> js \<Rightarrow> error + js" where
  \<comment> \<open>\<open>model.getProperties(v)\<close> for a value \<open>v\<close> of type \<open>any\<close>\<close>
  "modelGetProperties model v = bindE (asNumber v) (\<lambda>n. Inr (getProperties model n))"

subsection \<open>getPsets and the evaluation of an item\<close>

text \<open>
  \<open>getPsets\<close>: the property and quantity sets that define an entity, each with its
  handles replaced by the attributes of the items. \<open>structuredClone\<close> copies a value,
  which is the identity on values.
\<close>

definition getPsetItem :: "FragmentsGroup \<Rightarrow> js \<Rightarrow> js list \<Rightarrow> error + js list" where
  \<comment> \<open>the body of \<open>for (const { value } of attrsClone[propsListName])\<close>\<close>
  "getPsetItem model el props =
     bindE (getProp el ''value'') (\<lambda>v.
     bindE (modelGetProperties model v) (\<lambda>propAttrs.
       Inr (if truthy propAttrs then props @ [propAttrs] else props)))"

definition getPset :: "FragmentsGroup \<Rightarrow> int \<Rightarrow> js list \<Rightarrow> error + js list" where
  \<comment> \<open>the body of \<open>for (const definitionID of definitions)\<close>\<close>
  "getPset model definitionID sets =
     (let attrs = getProperties model definitionID in
      if \<not> truthy attrs then Inr sets
      else bindE (getProp attrs ''type'') (\<lambda>t.
        case getItemsAttrName t of
          None \<Rightarrow> Inr sets
        | Some propsListName \<Rightarrow>
            (let attrsClone = attrs in
             bindE (getProp attrsClone propsListName) (\<lambda>handles.
             bindE (iterate handles) (\<lambda>els.
             bindE (foldE (getPsetItem model) els []) (\<lambda>props.
               Inr (sets @ [setProp attrsClone propsListName (JArr props)])))))))"

definition getPsets :: "IfcRelationsIndexer \<Rightarrow> FragmentsGroup \<Rightarrow> int \<Rightarrow> error + js list" where
  "getPsets indexer model expressID =
     (case getEntityRelations indexer model expressID ''IsDefinedBy'' of
        None \<Rightarrow> Inr []
      | Some definitions \<Rightarrow> foldE (getPset model) definitions [])"

definition labelParameter :: "js \<Rightarrow> IDSFacetParameter \<Rightarrow> IDSFacetParameter" where
  \<comment> \<open>the clone of \<open>this.value\<close>, its parameter turned into a string when the value is an
     \<open>IFCLABEL\<close> and the parameter is simple\<close>
  "labelParameter valueAttrName thisValue =
     (if strictEquals valueAttrName (JStr ''IFCLABEL'') \<and> paramType thisValue = ''simple''
      then thisValue\<lparr> parameter := JStr (jsString (parameter thisValue)) \<rparr>
      else thisValue)"

definition evalValue :: "Matcher \<Rightarrow> IDSProperty \<Rightarrow> js \<Rightarrow> IDSCheck list \<Rightarrow> error + bool \<times> IDSCheck list" where
  "evalValue matches this attrs cs =
     bindE (getValueKey attrs) (\<lambda>valueKey.
       case facetValue this of
         Some thisValue \<Rightarrow>
           (case valueKey of
              None \<Rightarrow>
                Inr (False, cs @ [\<lparr> checkParameter = ''Value'', currentValue = JNull,
                                     requiredValue = parameter thisValue, checkPass = False \<rparr>])
            | Some valueKey \<Rightarrow>
                bindE (getProp attrs valueKey) (\<lambda>valueAttr.
                bindE (getProp valueAttr ''name'') (\<lambda>valueAttrName.
                  let facetValue = labelParameter valueAttrName thisValue in
                  bindE (getProp attrs ''type'') (\<lambda>attrsType.
                    case valueAttr of
                      JArr els \<Rightarrow>
                        if strictEquals attrsType (JNum IFCPROPERTYLISTVALUE) \<or>
                           strictEquals attrsType (JNum IFCPROPERTYENUMERATEDVALUE)
                        then
                          bindE (mapE (\<lambda>el. getProp el ''value'') els) (\<lambda>vals.
                            let matchingValue =
                                  find (\<lambda>el. matches (case getProp el ''value'' of Inr v \<Rightarrow> v | Inl _ \<Rightarrow> JUndefined)
                                                 facetValue ''Value'') els;
                                found = (case matchingValue of Some el \<Rightarrow> truthy el | None \<Rightarrow> False)
                            in Inr (found, cs @ [\<lparr> checkParameter = ''Value'', currentValue = JArr vals,
                                                    requiredValue = parameter facetValue, checkPass = found \<rparr>]))
                        else
                          bindE (getProp valueAttr ''value'') (\<lambda>v.
                            Inr (evalRequirement matches v facetValue ''Value'' cs))
                    | _ \<Rightarrow>
                        bindE (getProp valueAttr ''value'') (\<lambda>v.
                          Inr (evalRequirement matches v facetValue ''Value'' cs))))))
       | None \<Rightarrow>
           (case valueKey of
              None \<Rightarrow> Inr (True, cs)
            | Some valueKey \<Rightarrow>
                bindE (getProp attrs valueKey) (\<lambda>v.
                bindE (getProp v ''type'') (\<lambda>vType.
                bindE (getProp v ''value'') (\<lambda>vValue.
                  if strictEquals vType (JNum 3) \<and> strictEquals vValue (JNum 2)
                  then Inr (False, cs @ [\<lparr> checkParameter = ''Value'', currentValue = JNull,
                                            requiredValue = JNull, checkPass = False \<rparr>])
                  else if strictEquals vType (JNum 1)
                  then (case vValue of
                          JStr str \<Rightarrow>
                            if trim str = []
                            then Inr (False, cs @ [\<lparr> checkParameter = ''Value'', currentValue = JStr [],
                                                      requiredValue = JNull, checkPass = False \<rparr>])
                            else Inr (True, cs)
                        | _ \<Rightarrow> Inl TypeError)
                  else Inr (True, cs))))))"

definition evalDataType :: "Matcher \<Rightarrow> IDSProperty \<Rightarrow> js \<Rightarrow> IDSCheck list \<Rightarrow> error + bool \<times> IDSCheck list" where
  "evalDataType matches this attrs cs =
     (case dataType this of
        None \<Rightarrow> Inr (True, cs)
      | Some thisDataType \<Rightarrow>
          if thisDataType = [] then Inr (True, cs)
          else
            bindE (getValueKey attrs) (\<lambda>valueKey.
            bindE (getProp attrs (case valueKey of Some k \<Rightarrow> k | None \<Rightarrow> ''undefined'')) (\<lambda>valueAttr.
            bindE (getProp attrs ''type'') (\<lambda>attrsType.
              let simple = \<lparr> paramType = ''simple'', parameter = JStr thisDataType \<rparr>;
                  first = (case valueAttr of JArr (el # _) \<Rightarrow> el | _ \<Rightarrow> JUndefined)
              in
              if (strictEquals attrsType (JNum IFCPROPERTYLISTVALUE) \<or>
                  strictEquals attrsType (JNum IFCPROPERTYENUMERATEDVALUE)) \<and>
                 (case valueAttr of JArr _ \<Rightarrow> True | _ \<Rightarrow> False) \<and> truthy first
              then
                bindE (getProp first ''name'') (\<lambda>valueType.
                  Inr (evalRequirement matches valueType simple ''DataType'' cs))
              else
                bindE (getProp valueAttr ''name'') (\<lambda>valueType.
                  Inr (evalRequirement matches valueType simple ''DataType'' cs))))))"

definition evalURI :: bool where
  "evalURI = True"

subsection \<open>test\<close>

text \<open>
  \<open>test\<close>: one result per entity. The callbacks of \<open>filter\<close> push checks while they
  select, so they take and return the elements kept so far together with the checks. The
  transient buffer \<open>testResult\<close> is local to a call and is not modelled.
\<close>

definition filterSet ::
  "Matcher \<Rightarrow> IDSProperty \<Rightarrow> js \<Rightarrow> js list \<times> IDSCheck list \<Rightarrow> error + js list \<times> IDSCheck list" where
  \<comment> \<open>the callback of \<open>sets.filter\<close>, with the sets kept so far and the checks\<close>
  "filterSet matches this pset acc =
     (case acc of (matchingSets, cs) \<Rightarrow>
        bindE (getProp pset ''Name'') (\<lambda>name.
          let result = matches (nullish (optProp name ''value'') JNull) (propertySet this) ''PropertySet''
          in if \<not> result then Inr (matchingSets, cs)
             else bindE (getProp name ''value'') (\<lambda>nameValue.
                    Inr (matchingSets @ [pset],
                         cs @ [\<lparr> checkParameter = ''PropertySet'', currentValue = nameValue,
                                  requiredValue = parameter (propertySet this), checkPass = True \<rparr>]))))"

definition filterItem ::
  "Matcher \<Rightarrow> IDSProperty \<Rightarrow> js \<Rightarrow> js list \<times> IDSCheck list \<Rightarrow> error + js list \<times> IDSCheck list" where
  \<comment> \<open>the callback of \<open>items.filter\<close>\<close>
  "filterItem matches this item acc =
     (case acc of (matchingItems, cs) \<Rightarrow>
        bindE (getProp item ''type'') (\<lambda>itemType.
          if list_ex (\<lambda>t. strictEquals itemType (JNum t)) unsupportedTypes then Inr (matchingItems, cs)
          else
            bindE (getProp item ''Name'') (\<lambda>name.
              let result = matches (nullish (optProp name ''value'') JNull) (baseName this) ''BaseName''
              in if \<not> result then Inr (matchingItems, cs)
                 else bindE (getProp name ''value'') (\<lambda>nameValue.
                        Inr (matchingItems @ [item],
                             cs @ [\<lparr> checkParameter = ''BaseName'', currentValue = nameValue,
                                      requiredValue = parameter (baseName this), checkPass = True \<rparr>])))))"

definition evalItem :: "Matcher \<Rightarrow> IDSProperty \<Rightarrow> js \<Rightarrow> IDSCheck list \<Rightarrow> error + IDSCheck list" where
  \<comment> \<open>the body of \<open>for (const item of matchingItems)\<close>\<close>
  "evalItem matches this item cs =
     bindE (evalValue matches this item cs) (\<lambda>(_, cs).
     bindE (evalDataType matches this item cs) (\<lambda>(_, cs).
       Inr cs))"

definition testSet :: "Matcher \<Rightarrow> IDSProperty \<Rightarrow> js \<Rightarrow> IDSCheck list \<Rightarrow> error + IDSCheck list" where
  \<comment> \<open>the body of \<open>for (const set of matchingSets)\<close>\<close>
  "testSet matches this pset cs =
     (let missing = \<lparr> checkParameter = ''BaseName'', currentValue = JNull,
                      requiredValue = parameter (baseName this), checkPass = False \<rparr> in
      bindE (getProp pset ''type'') (\<lambda>t.
        case getItemsAttrName t of
          None \<Rightarrow> Inr (cs @ [missing])
        | Some itemsAttrName \<Rightarrow>
            bindE (getProp pset itemsAttrName) (\<lambda>items.
              case items of
                JArr els \<Rightarrow>
                  bindE (foldE (filterItem matches this) els ([], cs)) (\<lambda>(matchingItems, cs).
                    if length matchingItems = 0 then Inr (cs @ [missing])
                    else foldE (evalItem matches this) matchingItems cs)
              | _ \<Rightarrow> Inl TypeError)))"

definition testEntity ::
  "Matcher \<Rightarrow> IDSProperty \<Rightarrow> IfcRelationsIndexer \<Rightarrow> FragmentsGroup \<Rightarrow> int \<times> js \<Rightarrow> error + IDSCheckResult" where
  \<comment> \<open>the body of \<open>for (const _expressID in entities)\<close>\<close>
  "testEntity matches this indexer model entity =
     (case entity of (expressID, attrs) \<Rightarrow>
        bindE (getProp attrs ''GlobalId'') (\<lambda>globalId.
          let result = \<lparr> resultGuid = optProp globalId ''value'', resultExpressID = expressID,
                          resultPass = False, resultChecks = [], resultCardinality = cardinality this \<rparr>
          in
          bindE (getPsets indexer model expressID) (\<lambda>sets.
          bindE (foldE (filterSet matches this) sets ([], [])) (\<lambda>(matchingSets, cs).
            if length matchingSets = 0
            then Inr (result\<lparr> resultChecks :=
                        cs @ [\<lparr> checkParameter = ''PropertySet'', currentValue = JNull,
                                 requiredValue = parameter (propertySet this), checkPass = False \<rparr>] \<rparr>)
            else
              bindE (foldE (testSet matches this) matchingSets cs) (\<lambda>cs.
                Inr (result\<lparr> resultChecks := cs, resultPass := list_all checkPass cs \<rparr>))))))"

definition test ::
  "Matcher \<Rightarrow> IDSProperty \<Rightarrow> IfcRelationsIndexer \<Rightarrow> (int \<times> js) list \<Rightarrow> FragmentsGroup \<Rightarrow> error + IDSCheckResult list" where
  "test matches this indexer entities model = mapE (testEntity matches this indexer model) entities"

subsection \<open>getEntities\<close>








section \<open>Verification\<close>

subsection \<open>Notions used in the statements on the indexer\<close>

text \<open>
  \<open>slot m e j\<close> is the list stored for entity \<open>e\<close> under slot index \<open>j\<close>, if any.
  \<open>recordsOf\<close> lists the relation records of a model in the order in which \<open>process\<close>
  sees them (kind by kind in the order of \<open>_ifcRels\<close>, kinds without a table entry left
  out), each with the attribute pair of its kind. \<open>backRefs recs e role\<close> is the list of
  relating IDs of the records whose inverse attribute is \<open>role\<close> and that relate \<open>e\<close>,
  one for each occurrence of \<open>e\<close> in the record's related list (\<open>backRefsIdx\<close> is the
  same with the slot index in place of the attribute name). \<open>slotOfRecords recs e j\<close> is
  the list that a sequence of records puts into slot \<open>j\<close> of entity \<open>e\<close>: the related
  list of the last record with relating entity \<open>e\<close> and forward index \<open>j\<close>, if there
  is one, else the back-references to \<open>e\<close> under the inverse index \<open>j\<close>, and no slot
  when there are none. \<open>knownRoles\<close> says
  that the table only names attributes of \<open>_inverseAttributes\<close> (the type
  \<open>InverseAttribute\<close>), \<open>separatedRoles\<close> that no attribute is the forward attribute
  of one kind and the inverse attribute of another or the same kind.
\<close>

definition slot :: "RelationsMap \<Rightarrow> int \<Rightarrow> int \<Rightarrow> int list option" where
  "slot m e j = (case Map_get m e of None \<Rightarrow> None | Some s \<Rightarrow> Map_get s j)"

definition slotList :: "RelationsMap \<Rightarrow> int \<Rightarrow> int \<Rightarrow> int list" where
  "slotList m e j = (case slot m e j of None \<Rightarrow> [] | Some xs \<Rightarrow> xs)"

definition idxRelating :: "InverseAttributePair \<Rightarrow> int" where
  "idxRelating a = indexOf inverseAttributes (forRelating a)"

definition idxRelated :: "InverseAttributePair \<Rightarrow> int" where
  "idxRelated a = indexOf inverseAttributes (forRelated a)"

definition recordsOf :: "RelToAttributesMap \<Rightarrow> FragmentsGroup \<Rightarrow> (InverseAttributePair \<times> int \<times> int list) list" where
  "recordsOf relToAttributesMap model =
     concat (map (\<lambda>rel. case relToAttributesMap rel of
                           None \<Rightarrow> []
                         | Some a \<Rightarrow> map (Pair a) (relationRecords model rel)) ifcRels)"

definition indexRecords :: "(InverseAttributePair \<times> int \<times> int list) list \<Rightarrow> RelationsMap \<Rightarrow> RelationsMap" where
  "indexRecords recs m = fold (\<lambda>(a, r, E). indexRelation a r E) recs m"

definition backRefs :: "(InverseAttributePair \<times> int \<times> int list) list \<Rightarrow> int \<Rightarrow> string \<Rightarrow> int list" where
  "backRefs recs e role =
     concat (map (\<lambda>(a, r, E). if forRelated a = role then replicate (count_list E e) r else []) recs)"

definition backRefsIdx :: "(InverseAttributePair \<times> int \<times> int list) list \<Rightarrow> int \<Rightarrow> int \<Rightarrow> int list" where
  "backRefsIdx recs e j =
     concat (map (\<lambda>(a, r, E). if idxRelated a = j then replicate (count_list E e) r else []) recs)"

definition forwardLists :: "(InverseAttributePair \<times> int \<times> int list) list \<Rightarrow> int \<Rightarrow> int \<Rightarrow> int list list" where
  "forwardLists recs e j = map (\<lambda>(a, r, E). E) (filter (\<lambda>(a, r, E). r = e \<and> idxRelating a = j) recs)"

definition slotOfRecords :: "(InverseAttributePair \<times> int \<times> int list) list \<Rightarrow> int \<Rightarrow> int \<Rightarrow> int list option" where
  "slotOfRecords recs e j =
     (case forwardLists recs e j of
        [] \<Rightarrow> (case backRefsIdx recs e j of [] \<Rightarrow> None | rs \<Rightarrow> Some rs)
      | Es \<Rightarrow> Some (last Es))"

definition knownRoles :: "RelToAttributesMap \<Rightarrow> bool" where
  "knownRoles relToAttributesMap =
     list_all (\<lambda>rel. case relToAttributesMap rel of
                       None \<Rightarrow> True
                     | Some a \<Rightarrow> forRelating a \<in> set inverseAttributes \<and> forRelated a \<in> set inverseAttributes)
       ifcRels"

definition separatedRoles :: "RelToAttributesMap \<Rightarrow> bool" where
  "separatedRoles relToAttributesMap =
     list_all (\<lambda>rel. list_all (\<lambda>rel'.
         case (relToAttributesMap rel, relToAttributesMap rel') of
           (Some a, Some a') \<Rightarrow> forRelating a \<noteq> forRelated a'
         | _ \<Rightarrow> True) ifcRels) ifcRels"

text \<open>
  \<open>rawRecord\<close> is the relation record that \<open>processFromWebIfc\<close> reads from one line
  of the file (\<open>None\<close> when the line has no key starting with \<open>Relating\<close> or none
  starting with \<open>Related\<close>), and \<open>rawRecords\<close> lists the records of all lines of one
  relation type, in the order of \<open>GetLineIDsWithType\<close>.
\<close>

definition rawRecord :: "IfcAPI \<Rightarrow> int \<Rightarrow> int \<Rightarrow> error + (int \<times> int list) option" where
  "rawRecord ifcApi modelID lineID =
     (let relAttrs = getItemProperties ifcApi modelID lineID in
      bindE (objectKeys relAttrs) (\<lambda>keys.
        case (find (\<lambda>key. startsWith key ''Relating'') keys,
              find (\<lambda>key. startsWith key ''Related'') keys) of
          (Some relatingKey, Some relatedKey) \<Rightarrow>
            bindE (getProp relAttrs relatingKey) (\<lambda>relatingAttr.
            bindE (getProp relatingAttr ''value'') (\<lambda>relatingID.
            bindE (getProp relAttrs relatedKey) (\<lambda>relatedAttr.
            bindE (case relatedAttr of
                     JArr els \<Rightarrow> mapE (\<lambda>el. getProp el ''value'') els
                   | _ \<Rightarrow> Inl TypeError) (\<lambda>relatedIDs.
            bindE (asNumber relatingID) (\<lambda>relatingID.
            bindE (mapE asNumber relatedIDs) (\<lambda>relatedIDs.
              Inr (Some (relatingID, relatedIDs))))))))
        | _ \<Rightarrow> Inr None))"

definition rawRecords :: "IfcAPI \<Rightarrow> int \<Rightarrow> ifcRel \<Rightarrow> error + (int \<times> int list) list" where
  "rawRecords ifcApi modelID relType =
     bindE (mapE (rawRecord ifcApi modelID) (GetLineIDsWithType ifcApi modelID relType))
       (\<lambda>rs. Inr (concat (map (\<lambda>r. case r of None \<Rightarrow> [] | Some x \<Rightarrow> [x]) rs)))"

text \<open>
  A list represents a \<open>Map\<close> when its keys are distinct (\<open>wellFormedMap\<close>, for the
  relation map and each slot table). Two relation maps are structurally equal when they
  have the same entities, each with the same slot indices, each with the same list:
  \<open>lookups\<close> is the map as a function of the entity and the slot index.
  \<open>serializeSlots\<close> is the object that \<open>serializeRelations\<close> builds for one entity.
\<close>

definition wellFormedMap :: "RelationsMap \<Rightarrow> bool" where
  "wellFormedMap m = (distinct (map fst m) \<and> list_all (\<lambda>(e, slots). distinct (map fst slots)) m)"

definition lookups :: "RelationsMap \<Rightarrow> int \<Rightarrow> (int \<Rightarrow> int list option) option" where
  "lookups m e = map_option Map_get (Map_get m e)"

definition serializeSlots :: "Relations \<Rightarrow> (string \<times> int list) list \<Rightarrow> (string \<times> int list) list" where
  "serializeSlots relations slots =
     fold (\<lambda>(relationID, relationEntities) slots. obj_set slots (ToString relationID) relationEntities)
       relations slots"

subsection \<open>The two blocks with the arrays in a store\<close>

text \<open>
  The two blocks of \<open>indexRelation\<close> once more, with the arrays as the source has them:
  objects that a slot refers to. The store is the list of the arrays allocated so far
  and an address is a position in it; a slot holds an address. The array \<open>relatedIDs\<close>
  of a record is an array of its own, \<open>?? []\<close> allocates a new array, \<open>push\<close>
  changes the array at an address, and \<open>for (const id of relatedIDs)\<close> reads the array
  at its address at every step, as the array iterator does, so it also visits what the
  loop has pushed into that array. The loop then need not end: \<open>forRelatedS\<close> is a
  partial function and \<open>None\<close> stands for the loop that never ends. (The inner \<open>Map\<close>s
  stay values: each is referred to from one entry of \<open>relationsMap\<close> only.)

  \<open>lookS\<close> reads the array of a slot, \<open>invS\<close> says that the addresses in the slots are
  allocated and that no two slots share one, and \<open>agree\<close> that a store state and a
  relation map of the value model have the same entities and the same list in every
  slot. \<open>aliasFree\<close> is the condition on the records under which no loop pushes into
  the array it iterates over.
\<close>

type_synonym Store = "int list list"
type_synonym RelationsMapS = "(int \<times> (int \<times> nat) list) list"

definition setForRelatingS :: "RelationsMapS \<Rightarrow> int \<Rightarrow> int \<Rightarrow> nat \<Rightarrow> RelationsMapS" where
  "setForRelatingS relationsMap relatingID index relatedIDs =
     (let currentMap = (case Map_get relationsMap relatingID of Some m \<Rightarrow> m | None \<Rightarrow> []);
          currentMap = Map_set currentMap index relatedIDs
      in Map_set relationsMap relatingID currentMap)"

definition pushForRelatedS :: "int \<Rightarrow> int \<Rightarrow> int \<Rightarrow> RelationsMapS \<times> Store \<Rightarrow> RelationsMapS \<times> Store" where
  "pushForRelatedS relatingID index id' s =
     (case s of (relationsMap, store) \<Rightarrow>
        (let currentMap = (case Map_get relationsMap id' of Some m \<Rightarrow> m | None \<Rightarrow> []) in
         case Map_get currentMap index of
           None \<Rightarrow>
             (Map_set relationsMap id' (Map_set currentMap index (length store)),
              store @ [[relatingID]])
         | Some relations \<Rightarrow>
             (Map_set relationsMap id' (Map_set currentMap index relations),
              store[relations := store ! relations @ [relatingID]])))"

partial_function (option) forRelatedS ::
  "int \<Rightarrow> int \<Rightarrow> nat \<Rightarrow> nat \<Rightarrow> RelationsMapS \<times> Store \<Rightarrow> (RelationsMapS \<times> Store) option" where
  "forRelatedS relatingID index relatedIDs i s =
     (if i < length (snd s ! relatedIDs)
      then forRelatedS relatingID index relatedIDs (i + 1)
             (pushForRelatedS relatingID index (snd s ! relatedIDs ! i) s)
      else Some s)"

declare forRelatedS.simps [code]

definition indexRelationS ::
  "InverseAttributePair \<Rightarrow> int \<Rightarrow> int list \<Rightarrow> RelationsMapS \<times> Store \<Rightarrow> (RelationsMapS \<times> Store) option" where
  "indexRelationS inverseAttrs relatingID relatedIDs s =
     (case s of (relationsMap, store) \<Rightarrow>
        (let related = forRelated inverseAttrs; relating = forRelating inverseAttrs;
             addr = length store;
             store = store @ [relatedIDs];
             relationsMap = setForRelatingS relationsMap relatingID (indexOf inverseAttributes relating) addr
         in forRelatedS relatingID (indexOf inverseAttributes related) addr 0 (relationsMap, store)))"

fun indexRecordsS ::
  "(InverseAttributePair \<times> int \<times> int list) list \<Rightarrow> RelationsMapS \<times> Store \<Rightarrow> (RelationsMapS \<times> Store) option" where
  "indexRecordsS [] s = Some s"
| "indexRecordsS ((a, r, E) # recs) s =
     (case indexRelationS a r E s of None \<Rightarrow> None | Some s' \<Rightarrow> indexRecordsS recs s')"

definition slotS :: "RelationsMapS \<Rightarrow> int \<Rightarrow> int \<Rightarrow> nat option" where
  "slotS m e j = (case Map_get m e of None \<Rightarrow> None | Some s \<Rightarrow> Map_get s j)"

definition lookS :: "RelationsMapS \<times> Store \<Rightarrow> int \<Rightarrow> int \<Rightarrow> int list option" where
  "lookS s e j = map_option (\<lambda>a. snd s ! a) (slotS (fst s) e j)"

definition invS :: "RelationsMapS \<times> Store \<Rightarrow> bool" where
  "invS s = ((\<forall>e j a. slotS (fst s) e j = Some a \<longrightarrow> a < length (snd s)) \<and>
             (\<forall>e j e' j' a. slotS (fst s) e j = Some a \<longrightarrow> slotS (fst s) e' j' = Some a \<longrightarrow> e = e' \<and> j = j'))"

definition aliasFree :: "(InverseAttributePair \<times> int \<times> int list) list \<Rightarrow> bool" where
  "aliasFree recs = list_all (\<lambda>(a, r, E). idxRelating a \<noteq> idxRelated a \<or> r \<notin> set E) recs"

definition agree :: "RelationsMapS \<times> Store \<Rightarrow> RelationsMap \<Rightarrow> bool" where
  "agree s m = ((\<forall>e j. lookS s e j = slot m e j) \<and> (\<forall>e. Map_get (fst s) e = None \<longleftrightarrow> Map_get m e = None))"

subsection \<open>Concrete inputs for the indexer\<close>

text \<open>
  One instance of the table parameter, used to run the definitions: each relation kind
  with the names that the IFC schema gives to the two directions of the relationship.
  The model \<open>aggregatesModel\<close> has two aggregation records with the same relating
  entity 1.
\<close>

fun sampleTable :: RelToAttributesMap where
  "sampleTable IFCRELAGGREGATES = Some \<lparr>forRelating = ''IsDecomposedBy'', forRelated = ''Decomposes''\<rparr>"
| "sampleTable IFCRELASSOCIATESMATERIAL = Some \<lparr>forRelating = ''AssociatedTo'', forRelated = ''HasAssociations''\<rparr>"
| "sampleTable IFCRELASSOCIATESCLASSIFICATION = Some \<lparr>forRelating = ''ClassificationForObjects'', forRelated = ''HasAssociations''\<rparr>"
| "sampleTable IFCRELASSIGNSTOGROUP = Some \<lparr>forRelating = ''IsGroupedBy'', forRelated = ''HasAssignments''\<rparr>"
| "sampleTable IFCRELDEFINESBYPROPERTIES = Some \<lparr>forRelating = ''DefinesOcurrence'', forRelated = ''IsDefinedBy''\<rparr>"
| "sampleTable IFCRELDEFINESBYTYPE = Some \<lparr>forRelating = ''Types'', forRelated = ''IsTypedBy''\<rparr>"
| "sampleTable IFCRELDEFINESBYTEMPLATE = Some \<lparr>forRelating = ''Defines'', forRelated = ''IsDefinedBy''\<rparr>"
| "sampleTable IFCRELCONTAINEDINSPATIALSTRUCTURE = Some \<lparr>forRelating = ''ContainsElements'', forRelated = ''ContainedInStructure''\<rparr>"

definition emptyIndexer :: IfcRelationsIndexer where
  "emptyIndexer = \<lparr> relationMaps = (\<lambda>_. None), onRelationsIndexed = [] \<rparr>"

definition aggregatesModel :: FragmentsGroup where
  "aggregatesModel =
     \<lparr> uuid = ''model-1'', hasProperties = True,
       relationRecords = (\<lambda>rel. if rel = IFCRELAGGREGATES then [(1, [2, 4]), (1, [3, 4])] else []),
       getProperties = (\<lambda>_. JNull), getAllPropertiesOfType = (\<lambda>_. []) \<rparr>"

definition ifcHandle :: "int \<Rightarrow> js" where
  "ifcHandle n = JObj [(''type'', JNum 5), (''value'', JNum n)]"

definition aggregatesApi :: IfcAPI where
  "aggregatesApi =
     \<lparr> GetLineIDsWithType = (\<lambda>modelID rel. if modelID = 0 \<and> rel = IFCRELAGGREGATES then [100, 101, 102] else []),
       getItemProperties = (\<lambda>modelID lineID.
         if lineID = 100 then
           JObj [(''expressID'', JNum 100), (''Name'', JNull),
                 (''RelatingObject'', ifcHandle 1), (''RelatedObjects'', JArr [ifcHandle 2, ifcHandle 4])]
         else if lineID = 101 then
           JObj [(''expressID'', JNum 101), (''Name'', JNull),
                 (''RelatingObject'', ifcHandle 1), (''RelatedObjects'', JArr [ifcHandle 3, ifcHandle 4])]
         else if lineID = 102 then
           JObj [(''expressID'', JNum 102), (''RelatingObject'', ifcHandle 1)]
         else JNull) \<rparr>"

definition reversedApi :: IfcAPI where
  "reversedApi =
     aggregatesApi\<lparr> GetLineIDsWithType :=
       (\<lambda>modelID rel. if modelID = 0 \<and> rel = IFCRELAGGREGATES then [101, 100] else []) \<rparr>"

definition sampleMap :: RelationsMap where
  "sampleMap = [(10, [(1, [1, 2]), (0, [3])]), (- 3, [(0, [4])]), (2, [])]"

subsection \<open>Notions and concrete inputs for the property facet\<close>

text \<open>
  Notions for the property facet: \<open>valueOf el\<close> is \<open>el.value\<close>, \<open>setName pset\<close> is
  \<open>pset.Name?.value ?? null\<close>, \<open>propOf kvs k\<close> the property \<open>k\<close> of the object with the
  properties \<open>kvs\<close>.
\<close>

definition valueOf :: "js \<Rightarrow> js" where
  "valueOf el = (case getProp el ''value'' of Inr v \<Rightarrow> v | Inl _ \<Rightarrow> JUndefined)"

definition setName :: "js \<Rightarrow> js" where
  "setName pset = nullish (optProp (case getProp pset ''Name'' of Inr n \<Rightarrow> n | Inl _ \<Rightarrow> JUndefined) ''value'') JNull"

definition isObject :: "js \<Rightarrow> bool" where
  "isObject v = (case v of JObj _ \<Rightarrow> True | _ \<Rightarrow> False)"


definition specMatches :: Matcher where
  \<comment> \<open>Modelled from the spec: the matcher for the parameter kinds exact value and
     enumeration (section 4.3): an exact value matches by equality, an enumeration when the
     candidate equals one of the options. Patterns and bounds are not modelled.\<close>
  "specMatches v p label =
     (if paramType p = ''simple'' then strictEquals v (parameter p)
      else if paramType p = ''enumeration''
      then (case parameter p of JArr opts \<Rightarrow> list_ex (strictEquals v) opts | _ \<Rightarrow> False)
      else False)"

text \<open>
  A model for the concrete runs: the wall 1 is defined by the property set 10 named
  \<open>Pset_Demo\<close>, which has the single value \<open>Width\<close> = 5, the enumerated value \<open>Tags\<close> =
  [A, B] and the single value \<open>Comment\<close> without a nominal value. \<open>blankItem\<close> and
  \<open>unknownItem\<close> are properties whose value is a blank string and the logical unknown.
\<close>

definition ifcValue :: "int \<Rightarrow> js \<Rightarrow> string \<Rightarrow> js" where
  "ifcValue t v n = JObj [(''type'', JNum t), (''value'', v), (''name'', JStr n)]"

definition demoProperties :: "int \<Rightarrow> js" where
  "demoProperties n =
     (if n = 1 then
        JObj [(''expressID'', JNum 1), (''type'', JNum 2391406946),
              (''GlobalId'', JObj [(''type'', JNum 1), (''value'', JStr ''guid-1'')])]
      else if n = 10 then
        JObj [(''expressID'', JNum 10), (''type'', JNum IFCPROPERTYSET),
              (''Name'', JObj [(''type'', JNum 1), (''value'', JStr ''Pset_Demo'')]),
              (''HasProperties'', JArr [ifcHandle 20, ifcHandle 21, ifcHandle 22])]
      else if n = 20 then
        JObj [(''expressID'', JNum 20), (''type'', JNum 3650150729),
              (''Name'', JObj [(''type'', JNum 1), (''value'', JStr ''Width'')]),
              (''NominalValue'', ifcValue 4 (JNum 5) ''IFCINTEGER''), (''Unit'', JNull)]
      else if n = 21 then
        JObj [(''expressID'', JNum 21), (''type'', JNum IFCPROPERTYENUMERATEDVALUE),
              (''Name'', JObj [(''type'', JNum 1), (''value'', JStr ''Tags'')]),
              (''EnumerationValues'', JArr [ifcValue 1 (JStr ''A'') ''IFCLABEL'', ifcValue 1 (JStr ''B'') ''IFCLABEL'']),
              (''EnumerationReference'', JNull)]
      else if n = 22 then
        JObj [(''expressID'', JNum 22), (''type'', JNum 3650150729),
              (''Name'', JObj [(''type'', JNum 1), (''value'', JStr ''Comment'')]),
              (''NominalValue'', JNull), (''Unit'', JNull)]
      else JNull)"

definition demoModel :: FragmentsGroup where
  "demoModel =
     \<lparr> uuid = ''model-2'', hasProperties = True,
       relationRecords = (\<lambda>rel. if rel = IFCRELDEFINESBYPROPERTIES then [(10, [1])] else []),
       getProperties = demoProperties,
       getAllPropertiesOfType = (\<lambda>t. if t = IFCPROPERTYSET then [(10, demoProperties 10)] else []) \<rparr>"

definition demoIndexer :: IfcRelationsIndexer where
  "demoIndexer = snd (process sampleTable emptyIndexer demoModel)"

definition simple :: "js \<Rightarrow> IDSFacetParameter" where
  "simple v = \<lparr> paramType = ''simple'', parameter = v \<rparr>"

definition demoFacet :: "string \<Rightarrow> string \<Rightarrow> IDSFacetParameter option \<Rightarrow> IDSProperty" where
  "demoFacet pset name v =
     \<lparr> propertySet = simple (JStr pset), baseName = simple (JStr name), facetValue = v,
       dataType = None, uri = None, cardinality = required \<rparr>"

definition demoResolvedPset :: js where
  "demoResolvedPset = setProp (demoProperties 10) ''HasProperties'' (JArr [demoProperties 20, demoProperties 21, demoProperties 22])"




subsection \<open>Number to string and back: lemmas\<close>

lemma isDigit_digitChar: "d < 10 \<Longrightarrow> isDigit (digitChar d)"
  by (simp add: isDigit_def digitChar_def)

lemma digitVal_digitChar: "d < 10 \<Longrightarrow> digitVal (digitChar d) = d"
  by (simp add: digitVal_def digitChar_def)

lemma digitsToNat_append:
  "digitsToNat acc (xs @ ys) = (case digitsToNat acc xs of None \<Rightarrow> None | Some m \<Rightarrow> digitsToNat m ys)"
  by (induction xs arbitrary: acc) auto

lemma natToString_nonempty: "natToString n \<noteq> []"
  by (subst natToString.simps) simp

lemma digitsToNat_natToString: "digitsToNat 0 (natToString n) = Some n"
proof (induction n rule: natToString.induct)
  case (1 n)
  show ?case
  proof (cases "n < 10")
    case True
    then show ?thesis
      by (subst natToString.simps) (simp add: isDigit_digitChar digitVal_digitChar)
  next
    case False
    with 1 have "digitsToNat 0 (natToString (n div 10)) = Some (n div 10)" by simp
    with False show ?thesis
      by (subst natToString.simps)
         (simp add: digitsToNat_append isDigit_digitChar digitVal_digitChar)
  qed
qed

lemma stringToNat_natToString: "stringToNat (natToString n) = Some n"
  by (simp add: stringToNat_def natToString_nonempty digitsToNat_natToString)

lemma digitChar_ne_minus: "d < 10 \<Longrightarrow> digitChar d \<noteq> CHR ''-''"
proof
  assume d: "d < 10" and "digitChar d = CHR ''-''"
  then have "(of_char (digitChar d) :: nat) = of_char CHR ''-''" by simp
  with d show False by (simp add: digitChar_def)
qed

lemma natToString_no_minus: "hd (natToString n) \<noteq> CHR ''-''"
proof (induction n rule: natToString.induct)
  case (1 n)
  show ?case
  proof (cases "n < 10")
    case True
    then show ?thesis
      by (subst natToString.simps) (simp add: digitChar_ne_minus)
  next
    case False
    with 1 have "hd (natToString (n div 10)) \<noteq> CHR ''-''" by simp
    with False show ?thesis
      by (subst natToString.simps) (simp add: natToString_nonempty)
  qed
qed

lemma Number_ToString: "Number (ToString i) = Some i"
proof (cases "i < 0")
  case True
  then show ?thesis
    by (simp add: Number_def ToString_def stringToNat_natToString)
next
  case False
  obtain c cs where s: "natToString (nat i) = c # cs"
    using natToString_nonempty [of "nat i"] by (cases "natToString (nat i)") auto
  with natToString_no_minus [of "nat i"] have "c \<noteq> CHR ''-''" by simp
  moreover have "stringToNat (c # cs) = Some (nat i)"
    using stringToNat_natToString [of "nat i"] s by simp
  ultimately show ?thesis using False s
    by (simp add: Number_def ToString_def)
qed

lemma ToString_inj: "ToString i = ToString j \<Longrightarrow> i = j"
  by (metis Number_ToString option.inject)

subsection \<open>Lemmas on indexing\<close>

lemma slot_setForRelating:
  "slot (setForRelating m r i E) e j = (if e = r \<and> j = i then Some E else slot m e j)"
  by (auto simp: slot_def setForRelating_def Map_get_def Map_set_def update_conv' Let_def
      split: option.splits)

lemma slot_pushForRelated:
  "slot (pushForRelated r i x m) e j =
     (if e = x \<and> j = i then Some (slotList m e j @ [r]) else slot m e j)"
  by (auto simp: slot_def slotList_def pushForRelated_def Map_get_def Map_set_def update_conv' Let_def
      split: option.splits)

lemma slot_fold_pushForRelated:
  "slot (fold (pushForRelated r i) ids m) e j =
     (if j = i \<and> e \<in> set ids then Some (slotList m e j @ replicate (count_list ids e) r)
      else slot m e j)"
proof (induction ids arbitrary: m)
  case Nil
  then show ?case by simp
next
  case (Cons x ids)
  show ?case
    by (auto simp add: Cons.IH slot_pushForRelated slotList_def replicate_append_same)
qed

lemma slot_indexRelation:
  "slot (indexRelation a r E m) e j =
     (if j = idxRelated a \<and> e \<in> set E
      then Some ((if e = r \<and> j = idxRelating a then E else slotList m e j) @ replicate (count_list E e) r)
      else if e = r \<and> j = idxRelating a then Some E else slot m e j)"
  by (auto simp add: indexRelation_def Let_def slot_fold_pushForRelated slot_setForRelating slotList_def
      idxRelated_def idxRelating_def)

lemma indexRecords_Nil: "indexRecords [] m = m"
  by (simp add: indexRecords_def)

lemma indexRecords_Cons: "indexRecords ((a, r, E) # recs) m = indexRecords recs (indexRelation a r E m)"
  by (simp add: indexRecords_def)

lemma indexRecords_append: "indexRecords (xs @ ys) m = indexRecords ys (indexRecords xs m)"
  by (simp add: indexRecords_def)

lemma fold_skip:
  "tbl rel = None \<Longrightarrow> fold (\<lambda>(relatingID, relatedIDs). processCallback tbl rel relatingID relatedIDs) recs m = m"
  by (induction recs) (auto simp: processCallback_def)

lemma processCallback_Some: "tbl rel = Some a \<Longrightarrow> processCallback tbl rel r E = indexRelation a r E"
  by (rule ext) (simp add: processCallback_def)

lemma getRelationMap_processCallback:
  "getRelationMap model rel (processCallback tbl rel) m =
     indexRecords (case tbl rel of None \<Rightarrow> [] | Some a \<Rightarrow> map (Pair a) (relationRecords model rel)) m"
proof (cases "tbl rel")
  case None
  then show ?thesis
    by (simp add: getRelationMap_def indexRecords_def fold_skip)
next
  case (Some a)
  then show ?thesis
    by (simp add: getRelationMap_def processCallback_Some indexRecords_def fold_map comp_def
        case_prod_unfold)
qed

lemma fold_getRelationMap:
  "fold (\<lambda>rel. getRelationMap model rel (processCallback tbl rel)) rels m =
     indexRecords (concat (map (\<lambda>rel. case tbl rel of None \<Rightarrow> []
                                   | Some a \<Rightarrow> map (Pair a) (relationRecords model rel)) rels)) m"
  by (induction rels arbitrary: m)
     (simp_all add: indexRecords_Nil indexRecords_append getRelationMap_processCallback)

lemma slot_indexRecords_inverse:
  "\<forall>(a, r, E) \<in> set recs. idxRelating a \<noteq> j \<Longrightarrow>
   slot (indexRecords recs m) e j =
     (if backRefsIdx recs e j = [] then slot m e j else Some (slotList m e j @ backRefsIdx recs e j))"
proof (induction recs arbitrary: m)
  case Nil
  then show ?case by (simp add: indexRecords_Nil backRefsIdx_def)
next
  case (Cons x recs)
  obtain a r E where x: "x = (a, r, E)" by (cases x) auto
  from Cons.prems x have ne: "idxRelating a \<noteq> j" and rest: "\<forall>(a, r, E) \<in> set recs. idxRelating a \<noteq> j"
    by auto
  have step: "slot (indexRelation a r E m) e j =
      (if j = idxRelated a \<and> e \<in> set E then Some (slotList m e j @ replicate (count_list E e) r)
       else slot m e j)"
    using ne by (auto simp: slot_indexRelation)
  have bs: "backRefsIdx (x # recs) e j =
      (if idxRelated a = j then replicate (count_list E e) r else []) @ backRefsIdx recs e j"
    by (simp add: backRefsIdx_def x)
  show ?case
    unfolding x indexRecords_Cons Cons.IH [OF rest] bs [unfolded x]
    by (auto simp: step slotList_def count_list_0_iff)
qed

lemma slot_indexRecords_untouched:
  "\<forall>(a, r', E) \<in> set recs. idxRelated a \<noteq> j \<and> \<not> (r' = r \<and> idxRelating a = j) \<Longrightarrow>
   slot (indexRecords recs m) r j = slot m r j"
proof (induction recs arbitrary: m)
  case Nil
  then show ?case by (simp add: indexRecords_Nil)
next
  case (Cons x recs)
  obtain a r' E where x: "x = (a, r', E)" by (cases x) auto
  from Cons.prems x have h: "idxRelated a \<noteq> j" "\<not> (r' = r \<and> idxRelating a = j)"
    and rest: "\<forall>(a, r', E) \<in> set recs. idxRelated a \<noteq> j \<and> \<not> (r' = r \<and> idxRelating a = j)"
    by auto
  show ?case
    unfolding x indexRecords_Cons Cons.IH [OF rest]
    using h by (auto simp: slot_indexRelation)
qed

lemma slot_indexRecords_forward:
  assumes "recs = pre @ (a, r, E) # post"
    and "idxRelated a \<noteq> idxRelating a"
    and "\<forall>(a', r', E') \<in> set post. idxRelated a' \<noteq> idxRelating a \<and> \<not> (r' = r \<and> idxRelating a' = idxRelating a)"
  shows "slot (indexRecords recs m) r (idxRelating a) = Some E"
  using assms(2)
  by (simp add: assms(1) indexRecords_append indexRecords_Cons
      slot_indexRecords_untouched [OF assms(3)] slot_indexRelation)

lemma indexOfFrom_ge: "indexOfFrom xs x i = - 1 \<or> i \<le> indexOfFrom xs x i"
  by (induction xs arbitrary: i) (auto, smt (verit))

lemma indexOfFrom_found: "0 \<le> i \<Longrightarrow> x \<in> set xs \<longleftrightarrow> indexOfFrom xs x i \<noteq> - 1"
proof (induction xs arbitrary: i)
  case Nil
  then show ?case by simp
next
  case (Cons y xs)
  show ?case
    using Cons.IH [of "i + 1"] Cons.prems by auto
qed

lemma indexOfFrom_inj:
  "0 \<le> i \<Longrightarrow> x \<in> set xs \<Longrightarrow> indexOfFrom xs x i = indexOfFrom xs y i \<Longrightarrow> x = y"
proof (induction xs arbitrary: i)
  case Nil
  then show ?case by simp
next
  case (Cons z xs)
  show ?case
  proof (cases "z = x")
    case True
    show ?thesis
    proof (rule ccontr)
      assume "x \<noteq> y"
      with True Cons.prems have "i = indexOfFrom xs y (i + 1)" by simp
      with indexOfFrom_ge [of xs y "i + 1"] Cons.prems(1) show False by auto
    qed
  next
    case False
    show ?thesis
    proof (cases "z = y")
      case True
      with False Cons.prems have "indexOfFrom xs x (i + 1) = i" by simp
      with indexOfFrom_ge [of xs x "i + 1"] Cons.prems(1) show ?thesis by auto
    next
      case zy: False
      with False Cons.prems Cons.IH [of "i + 1"] show ?thesis by auto
    qed
  qed
qed

lemma indexOf_member: "x \<in> set xs \<longleftrightarrow> indexOf xs x \<noteq> - 1"
  by (simp add: indexOf_def indexOfFrom_found)

lemma indexOf_inj: "x \<in> set xs \<Longrightarrow> indexOf xs x = indexOf xs y \<Longrightarrow> x = y"
  unfolding indexOf_def by (rule indexOfFrom_inj) auto

lemma knownRoles_sampleTable: "knownRoles sampleTable"
  by (simp add: knownRoles_def ifcRels_def inverseAttributes_def)

lemma separatedRoles_sampleTable: "separatedRoles sampleTable"
  by (simp add: separatedRoles_def ifcRels_def)

lemma getEntityRelations_slot:
  "relationMaps indexer (uuid model) = Some M \<Longrightarrow>
   getEntityRelations indexer model e name =
     (if indexOf inverseAttributes name = - 1 then None else slot M e (indexOf inverseAttributes name))"
  by (simp add: getEntityRelations_def slot_def Let_def split: option.splits)

lemma process_fresh:
  assumes "hasProperties model" and "relationMaps indexer (uuid model) = None"
  shows "process tbl indexer model =
     (Inr (indexRecords (recordsOf tbl model) []),
      setRelationMap indexer model (indexRecords (recordsOf tbl model) []))"
  using assms by (simp add: process_def Let_def fold_getRelationMap recordsOf_def)

lemma relationMaps_setRelationMap:
  "relationMaps (setRelationMap indexer model M) (uuid model) = Some M"
  by (simp add: setRelationMap_def)

lemma recordsOf_table:
  "(a, r, E) \<in> set (recordsOf tbl model) \<Longrightarrow> \<exists>rel \<in> set ifcRels. tbl rel = Some a"
  by (auto simp: recordsOf_def split: option.splits)

lemma knownRoles_D:
  "knownRoles tbl \<Longrightarrow> rel \<in> set ifcRels \<Longrightarrow> tbl rel = Some a \<Longrightarrow>
   forRelating a \<in> set inverseAttributes \<and> forRelated a \<in> set inverseAttributes"
  by (auto simp: knownRoles_def list_all_iff split: option.splits)

lemma separatedRoles_D:
  "separatedRoles tbl \<Longrightarrow> rel \<in> set ifcRels \<Longrightarrow> rel' \<in> set ifcRels \<Longrightarrow>
   tbl rel = Some a \<Longrightarrow> tbl rel' = Some a' \<Longrightarrow> forRelating a \<noteq> forRelated a'"
  by (fastforce simp: separatedRoles_def list_all_iff)

lemma idx_separated:
  assumes "knownRoles tbl" "separatedRoles tbl"
    and "(a, r, E) \<in> set (recordsOf tbl model)" "(a', r', E') \<in> set (recordsOf tbl model)"
  shows "idxRelating a \<noteq> idxRelated a'"
proof -
  obtain rel rel' where t: "rel \<in> set ifcRels" "tbl rel = Some a" "rel' \<in> set ifcRels" "tbl rel' = Some a'"
    using recordsOf_table [OF assms(3)] recordsOf_table [OF assms(4)] by blast
  have "forRelating a \<in> set inverseAttributes"
    using knownRoles_D [OF assms(1) t(1,2)] by simp
  moreover have "forRelating a \<noteq> forRelated a'"
    using separatedRoles_D [OF assms(2) t(1) t(3) t(2) t(4)] .
  ultimately show ?thesis
    unfolding idxRelating_def idxRelated_def using indexOf_inj by metis
qed

lemma idxRelating_eq:
  assumes "knownRoles tbl" and "(a, r, E) \<in> set (recordsOf tbl model)"
  shows "idxRelating a' = idxRelating a \<longleftrightarrow> forRelating a' = forRelating a"
proof -
  obtain rel where t: "rel \<in> set ifcRels" "tbl rel = Some a"
    using recordsOf_table [OF assms(2)] by blast
  have "forRelating a \<in> set inverseAttributes"
    using knownRoles_D [OF assms(1) t] by simp
  then show ?thesis
    unfolding idxRelating_def using indexOf_inj by metis
qed

lemma idxRelated_eq:
  assumes "knownRoles tbl" and "(a, r, E) \<in> set (recordsOf tbl model)"
  shows "idxRelated a' = idxRelated a \<longleftrightarrow> forRelated a' = forRelated a"
proof -
  obtain rel where t: "rel \<in> set ifcRels" "tbl rel = Some a"
    using recordsOf_table [OF assms(2)] by blast
  have "forRelated a \<in> set inverseAttributes"
    using knownRoles_D [OF assms(1) t] by simp
  then show ?thesis
    unfolding idxRelated_def using indexOf_inj by metis
qed

lemma idx_known:
  assumes "knownRoles tbl" and "(a, r, E) \<in> set (recordsOf tbl model)"
  shows "idxRelating a \<noteq> - 1" and "idxRelated a \<noteq> - 1"
proof -
  obtain rel where t: "rel \<in> set ifcRels" "tbl rel = Some a"
    using recordsOf_table [OF assms(2)] by blast
  from knownRoles_D [OF assms(1) t]
  show "idxRelating a \<noteq> - 1" and "idxRelated a \<noteq> - 1"
    by (simp_all add: idxRelating_def idxRelated_def indexOf_member [symmetric])
qed

lemma backRefsIdx_member:
  "(a, r, E) \<in> set recs \<Longrightarrow> e \<in> set E \<Longrightarrow> r \<in> set (backRefsIdx recs e (idxRelated a))"
  by (force simp: backRefsIdx_def count_list_0_iff)

lemma backRefs_backRefsIdx:
  assumes "\<forall>(a', r', E') \<in> set recs. idxRelated a' = j \<longleftrightarrow> forRelated a' = role"
  shows "backRefsIdx recs e j = backRefs recs e role"
  using assms by (induction recs) (auto simp: backRefsIdx_def backRefs_def)

lemma slot_empty: "slot [] e j = None" "slotList [] e j = []"
  by (simp_all add: slot_def slotList_def Map_get_def)

lemma recordsOf_aggregatesModel:
  "recordsOf sampleTable aggregatesModel =
     [(\<lparr>forRelating = ''IsDecomposedBy'', forRelated = ''Decomposes''\<rparr>, 1, [2, 4])] @
     (\<lparr>forRelating = ''IsDecomposedBy'', forRelated = ''Decomposes''\<rparr>, 1, [3, 4]) # []"
  by (simp add: recordsOf_def ifcRels_def aggregatesModel_def)

subsection \<open>Lemmas on the two ingestion paths\<close>

lemma bindE_Inr_iff: "bindE r f = Inr y \<longleftrightarrow> (\<exists>x. r = Inr x \<and> f x = Inr y)"
  by (cases r) (auto simp: bindE_def)

lemma bindE_simps [simp]: "bindE (Inr x) f = f x" "bindE (Inl e) f = Inl e"
  by (simp_all add: bindE_def)

lemma webIfcRelated_pushForRelated:
  "webIfcRelated related relatingID = pushForRelated relatingID (indexOf inverseAttributes related)"
  by (intro ext) (simp add: webIfcRelated_def pushForRelated_def Let_def)

lemma webIfc_blocks_indexRelation:
  "fold (webIfcRelated (forRelated ia) r) E
     (Map_set m r (Map_set (case Map_get m r of Some s \<Rightarrow> s | None \<Rightarrow> [])
                     (indexOf inverseAttributes (forRelating ia)) E)) =
   indexRelation ia r E m"
  by (simp add: webIfcRelated_pushForRelated indexRelation_def setForRelating_def Let_def)

lemma webIfcRecord_rawRecord:
  "webIfcRecord ia ifcApi modelID lineID m =
     bindE (rawRecord ifcApi modelID lineID)
       (\<lambda>ro. Inr (case ro of None \<Rightarrow> m | Some (r, E) \<Rightarrow> indexRelation ia r E m))"
  unfolding webIfcRecord_def rawRecord_def Let_def webIfc_blocks_indexRelation
  by (auto simp: bindE_def split: sum.splits option.splits prod.splits js.splits)

lemma foldE_webIfcRecord:
  "mapE (rawRecord ifcApi modelID) ids = Inr ros \<Longrightarrow>
   foldE (webIfcRecord ia ifcApi modelID) ids m =
     Inr (fold (\<lambda>(r, E). indexRelation ia r E)
            (concat (map (\<lambda>r. case r of None \<Rightarrow> [] | Some x \<Rightarrow> [x]) ros)) m)"
proof (induction ids arbitrary: ros m)
  case Nil
  then show ?case by simp
next
  case (Cons i ids)
  from Cons.prems obtain ro ros' where ro: "rawRecord ifcApi modelID i = Inr ro"
    and ros': "mapE (rawRecord ifcApi modelID) ids = Inr ros'" and ros: "ros = ro # ros'"
    by (auto simp: bindE_Inr_iff)
  have step: "webIfcRecord ia ifcApi modelID i m =
      Inr (case ro of None \<Rightarrow> m | Some (r, E) \<Rightarrow> indexRelation ia r E m)"
    by (simp add: webIfcRecord_rawRecord ro)
  show ?case
    by (cases ro) (auto simp: step ros Cons.IH [OF ros'])
qed

lemma webIfcRel_rawRecords:
  assumes "tbl rel \<noteq> None \<longrightarrow> rawRecords ifcApi modelID rel = Inr recs"
  shows "webIfcRel tbl ifcApi modelID rel m =
     Inr (indexRecords (case tbl rel of None \<Rightarrow> [] | Some a \<Rightarrow> map (Pair a) recs) m)"
proof (cases "tbl rel")
  case None
  then show ?thesis by (simp add: webIfcRel_def indexRecords_Nil)
next
  case (Some a)
  with assms obtain ros where ros: "mapE (rawRecord ifcApi modelID) (GetLineIDsWithType ifcApi modelID rel) = Inr ros"
    and recs: "recs = concat (map (\<lambda>r. case r of None \<Rightarrow> [] | Some x \<Rightarrow> [x]) ros)"
    by (auto simp: rawRecords_def bindE_Inr_iff)
  show ?thesis
    by (simp add: webIfcRel_def Some foldE_webIfcRecord [OF ros] recs indexRecords_def fold_map
        comp_def case_prod_unfold)
qed

lemma foldE_webIfcRel:
  assumes "\<forall>rel \<in> set rels. tbl rel \<noteq> None \<longrightarrow> rawRecords ifcApi modelID rel = Inr (relationRecords model rel)"
  shows "foldE (webIfcRel tbl ifcApi modelID) rels m =
     Inr (indexRecords (concat (map (\<lambda>rel. case tbl rel of None \<Rightarrow> []
                                   | Some a \<Rightarrow> map (Pair a) (relationRecords model rel)) rels)) m)"
  using assms
proof (induction rels arbitrary: m)
  case Nil
  then show ?case by (simp add: indexRecords_Nil)
next
  case (Cons rel rels)
  have one: "webIfcRel tbl ifcApi modelID rel m =
     Inr (indexRecords (case tbl rel of None \<Rightarrow> [] | Some a \<Rightarrow> map (Pair a) (relationRecords model rel)) m)"
    using Cons.prems by (intro webIfcRel_rawRecords) simp
  have rest: "\<forall>rel \<in> set rels. tbl rel \<noteq> None \<longrightarrow> rawRecords ifcApi modelID rel = Inr (relationRecords model rel)"
    using Cons.prems by simp
  show ?case
    by (simp add: one Cons.IH [OF rest] indexRecords_append)
qed

lemma rawRecords_aggregatesApi:
  "\<forall>rel \<in> set ifcRels. sampleTable rel \<noteq> None \<longrightarrow>
     rawRecords aggregatesApi 0 rel = Inr (relationRecords aggregatesModel rel)"
  unfolding ifcRels_def by (simp; intro conjI; code_simp)

lemma mapE_ifcHandle_value: "mapE (\<lambda>el. getProp el ''value'') (map ifcHandle E) = Inr (map JNum E)"
  by (induction E) (simp_all add: ifcHandle_def getProp_def)

lemma mapE_asNumber_JNum: "mapE asNumber (map JNum E) = Inr E"
  by (induction E) (simp_all add: asNumber_def)

lemma rawRecord_line:
  assumes "getItemProperties ifcApi modelID lineID = JObj kvs"
    and "find (\<lambda>key. startsWith key ''Relating'') (map fst kvs) = Some relatingKey"
    and "find (\<lambda>key. startsWith key ''Related'') (map fst kvs) = Some relatedKey"
    and "map_of kvs relatingKey = Some (ifcHandle r)"
    and "map_of kvs relatedKey = Some (JArr (map ifcHandle E))"
  shows "rawRecord ifcApi modelID lineID = Inr (Some (r, E))"
proof -
  have g: "getProp (JObj kvs) relatingKey = Inr (ifcHandle r)"
    "getProp (ifcHandle r) ''value'' = Inr (JNum r)"
    "getProp (JObj kvs) relatedKey = Inr (JArr (map ifcHandle E))"
    using assms(4,5) by (simp_all add: getProp_def ifcHandle_def)
  show ?thesis
    by (simp add: rawRecord_def assms(1,2,3) objectKeys_def g Let_def mapE_ifcHandle_value
        mapE_asNumber_JNum asNumber_def)
qed

lemma backRefsIdx_none:
  "\<forall>(a, r, E) \<in> set recs. idxRelated a \<noteq> j \<Longrightarrow> backRefsIdx recs e j = []"
  by (induction recs) (auto simp: backRefsIdx_def)

lemma slot_indexRecords_slotOfRecords:
  assumes sep: "\<forall>(a, r, E) \<in> set recs. \<forall>(a', r', E') \<in> set recs. idxRelating a \<noteq> idxRelated a'"
  shows "slot (indexRecords recs []) e j = slotOfRecords recs e j"
proof (cases "\<exists>x \<in> set recs. (\<lambda>(a, r, E). r = e \<and> idxRelating a = j) x")
  case True
  from split_list_last_prop [OF True] obtain pre x post where
    recs: "recs = pre @ x # post" and x: "(\<lambda>(a, r, E). r = e \<and> idxRelating a = j) x"
    and post: "\<forall>z \<in> set post. \<not> (\<lambda>(a, r, E). r = e \<and> idxRelating a = j) z"
    by blast
  obtain a E where xa: "x = (a, e, E)" and j: "idxRelating a = j" using x by (cases x) auto
  have here: "(a, e, E) \<in> set recs" by (simp add: recs xa)
  have p: "\<forall>(a', r', E') \<in> set post.
      idxRelated a' \<noteq> idxRelating a \<and> \<not> (r' = e \<and> idxRelating a' = idxRelating a)"
  proof (clarify, rule conjI)
    fix a' r' E' assume m: "(a', r', E') \<in> set post"
    then have "(a', r', E') \<in> set recs" by (simp add: recs)
    with sep here show "idxRelated a' \<noteq> idxRelating a" by fastforce
    from post m show "\<not> (r' = e \<and> idxRelating a' = idxRelating a)" by (auto simp: j)
  qed
  have d: "idxRelated a \<noteq> idxRelating a" using sep here by fastforce
  have "slot (indexRecords recs []) e (idxRelating a) = Some E"
    using slot_indexRecords_forward [OF recs [unfolded xa] d p] .
  moreover have "filter (\<lambda>(a, r, E). r = e \<and> idxRelating a = j) post = []"
    using post by (auto simp: filter_empty_conv)
  then have "forwardLists recs e j = forwardLists pre e j @ [E]"
    using j by (simp add: forwardLists_def recs xa)
  then have "forwardLists recs e j \<noteq> []" "last (forwardLists recs e j) = E"
    by simp_all
  then have "slotOfRecords recs e j = Some E"
    by (cases "forwardLists recs e j") (simp_all add: slotOfRecords_def)
  ultimately show ?thesis
    by (simp add: j)
next
  case False
  then have f: "forwardLists recs e j = []"
    by (auto simp: forwardLists_def filter_empty_conv)
  show ?thesis
  proof (cases "\<exists>(a, r, E) \<in> set recs. idxRelating a = j")
    case True
    with sep have n: "\<forall>(a, r, E) \<in> set recs. idxRelated a \<noteq> j" by fastforce
    with False have "\<forall>(a, r', E) \<in> set recs. idxRelated a \<noteq> j \<and> \<not> (r' = e \<and> idxRelating a = j)"
      by auto
    from slot_indexRecords_untouched [OF this, of "[]"] backRefsIdx_none [OF n, of e]
    show ?thesis by (simp add: slotOfRecords_def f slot_empty)
  next
    case False
    then have "\<forall>(a, r, E) \<in> set recs. idxRelating a \<noteq> j" by auto
    from slot_indexRecords_inverse [OF this, of "[]" e]
    show ?thesis by (simp add: slotOfRecords_def f slot_empty split: list.splits)
  qed
qed

subsection \<open>Lemmas on the arrays in a store\<close>

text \<open>
  Under \<open>aliasFree\<close> the blocks on the store return, and their result agrees with the
  value model (\<open>indexRecordsS_agrees\<close>); the tables considered in the claims are of that
  kind (\<open>aliasFree_recordsOf\<close>). A record whose relating entity is among its related
  ones, with the forward and the inverse attribute at the same index, is one on which
  the loop of the source never ends (\<open>indexRelationS_never_returns\<close>).
\<close>

lemma slotS_setForRelatingS:
  "slotS (setForRelatingS m r i a) e j = (if e = r \<and> j = i then Some a else slotS m e j)"
  by (auto simp: slotS_def setForRelatingS_def Map_get_def Map_set_def update_conv' Let_def
      split: option.splits)

lemma pushForRelatedS_None:
  assumes "slotS m x i = None"
  shows "\<exists>m'. pushForRelatedS r i x (m, st) = (m', st @ [[r]]) \<and>
           (\<forall>e j. slotS m' e j = (if e = x \<and> j = i then Some (length st) else slotS m e j)) \<and>
           (\<forall>e. Map_get m' e = None \<longleftrightarrow> e \<noteq> x \<and> Map_get m e = None)"
  using assms
  by (auto simp: pushForRelatedS_def slotS_def Map_get_def Map_set_def update_conv' Let_def
      split: option.splits)

lemma pushForRelatedS_Some:
  assumes "slotS m x i = Some a"
  shows "\<exists>m'. pushForRelatedS r i x (m, st) = (m', st[a := st ! a @ [r]]) \<and>
           (\<forall>e j. slotS m' e j = slotS m e j) \<and>
           (\<forall>e. Map_get m' e = None \<longleftrightarrow> Map_get m e = None)"
  using assms
  by (auto simp: pushForRelatedS_def slotS_def Map_get_def Map_set_def update_conv' Let_def
      split: option.splits)


lemma Map_get_setForRelating:
  "Map_get (setForRelating M r i E) e = None \<longleftrightarrow> e \<noteq> r \<and> Map_get M e = None"
  by (auto simp: setForRelating_def Map_get_def Map_set_def update_conv' Let_def)

lemma Map_get_setForRelatingS:
  "Map_get (setForRelatingS m r i a) e = None \<longleftrightarrow> e \<noteq> r \<and> Map_get m e = None"
  by (auto simp: setForRelatingS_def Map_get_def Map_set_def update_conv' Let_def)

lemma Map_get_pushForRelated:
  "Map_get (pushForRelated r i x M) e = None \<longleftrightarrow> e \<noteq> x \<and> Map_get M e = None"
  by (auto simp: pushForRelated_def Map_get_def Map_set_def update_conv' Let_def)

lemma slotS_Some_table: "slotS m e j = Some a \<Longrightarrow> Map_get m e \<noteq> None"
  by (auto simp: slotS_def split: option.splits)

lemma invS_bound: "invS (m, st) \<Longrightarrow> slotS m e j = Some a \<Longrightarrow> a < length st"
  unfolding invS_def by auto

lemma invS_inj: "invS (m, st) \<Longrightarrow> slotS m e j = Some a \<Longrightarrow> slotS m e' j' = Some a \<Longrightarrow> e = e' \<and> j = j'"
  unfolding invS_def fst_conv by blast

lemma agree_look: "agree (m, st) M \<Longrightarrow> map_option (\<lambda>a. st ! a) (slotS m e j) = slot M e j"
  unfolding agree_def lookS_def by auto

lemma agree_table: "agree (m, st) M \<Longrightarrow> Map_get m e = None \<longleftrightarrow> Map_get M e = None"
  unfolding agree_def by auto

lemma pushForRelatedS_store:
  assumes inv: "invS (m, st)"
  shows "invS (pushForRelatedS r i x (m, st)) \<and>
         (\<forall>e j a. slotS m e j = Some a \<longrightarrow>
            slotS (fst (pushForRelatedS r i x (m, st))) e j = Some a \<and>
            snd (pushForRelatedS r i x (m, st)) ! a =
              (if e = x \<and> j = i then st ! a @ [r] else st ! a))"
proof (cases "slotS m x i")
  case None
  from pushForRelatedS_None [OF None, of r st] obtain m' where
    p: "pushForRelatedS r i x (m, st) = (m', st @ [[r]])"
    and sl: "\<And>e j. slotS m' e j = (if e = x \<and> j = i then Some (length st) else slotS m e j)"
    by blast
  have fresh: "slotS m e j \<noteq> Some (length st)" for e j
    using invS_bound [OF inv, of e j "length st"] by auto
  have 1: "invS (m', st @ [[r]])"
    unfolding invS_def fst_conv snd_conv
  proof (intro conjI allI impI)
    fix e j a assume "slotS m' e j = Some a"
    then show "a < length (st @ [[r]])"
      using invS_bound [OF inv, of e j a] by (auto simp: sl split: if_splits)
  next
    fix e j e' j' a assume "slotS m' e j = Some a" "slotS m' e' j' = Some a"
    then have "e = e' \<and> j = j'"
      using invS_inj [OF inv, of e j a e' j'] fresh by (auto simp: sl split: if_splits)
    then show "e = e'" "j = j'" by auto
  qed
  have 2: "slotS m' e j = Some a \<and> (st @ [[r]]) ! a = (if e = x \<and> j = i then st ! a @ [r] else st ! a)"
    if "slotS m e j = Some a" for e j a
    using that None invS_bound [OF inv, of e j a] by (auto simp: sl nth_append)
  show ?thesis unfolding p using 1 2 by simp
next
  case (Some a0)
  from pushForRelatedS_Some [OF Some, of r st] obtain m' where
    p: "pushForRelatedS r i x (m, st) = (m', st[a0 := st ! a0 @ [r]])"
    and sl: "\<And>e j. slotS m' e j = slotS m e j"
    by blast
  have a0: "a0 < length st" using invS_bound [OF inv Some] .
  have 1: "invS (m', st[a0 := st ! a0 @ [r]])"
    unfolding invS_def fst_conv snd_conv
  proof (intro conjI allI impI)
    fix e j a assume "slotS m' e j = Some a"
    then show "a < length (st[a0 := st ! a0 @ [r]])"
      using invS_bound [OF inv, of e j a] by (auto simp: sl)
  next
    fix e j e' j' a assume "slotS m' e j = Some a" "slotS m' e' j' = Some a"
    then have "e = e' \<and> j = j'"
      using invS_inj [OF inv, of e j a e' j'] by (auto simp: sl)
    then show "e = e'" "j = j'" by auto
  qed
  have 2: "slotS m' e j = Some a \<and>
           st[a0 := st ! a0 @ [r]] ! a = (if e = x \<and> j = i then st ! a @ [r] else st ! a)"
    if "slotS m e j = Some a" for e j a
  proof (cases "e = x \<and> j = i")
    case True
    with that Some have "a = a0" by simp
    with True that a0 show ?thesis by (simp add: sl)
  next
    case False
    have "a \<noteq> a0"
    proof
      assume "a = a0"
      with invS_inj [OF inv that, of x i] Some False show False by auto
    qed
    with False that show ?thesis by (simp add: sl)
  qed
  show ?thesis unfolding p using 1 2 by simp
qed

lemma pushForRelatedS_agree:
  assumes inv: "invS (m, st)" and ag: "agree (m, st) M"
  shows "agree (pushForRelatedS r i x (m, st)) (pushForRelated r i x M)"
proof -
  obtain m' st' where p: "pushForRelatedS r i x (m, st) = (m', st')"
    by (cases "pushForRelatedS r i x (m, st)")
  have tb: "Map_get m' e = None \<longleftrightarrow> e \<noteq> x \<and> Map_get m e = None" for e
  proof (cases "slotS m x i")
    case None
    from pushForRelatedS_None [OF None, of r st] show ?thesis by (auto simp: p)
  next
    case (Some a0)
    from pushForRelatedS_Some [OF Some, of r st] slotS_Some_table [OF Some]
    show ?thesis by (auto simp: p)
  qed
  have "lookS (m', st') e j = slot (pushForRelated r i x M) e j" for e j
  proof (cases "slotS m e j")
    case (Some a)
    from pushForRelatedS_store [OF inv, of r i x] Some
    have "slotS m' e j = Some a" "st' ! a = (if e = x \<and> j = i then st ! a @ [r] else st ! a)"
      by (auto simp: p)
    moreover have "slot M e j = Some (st ! a)"
      using agree_look [OF ag, of e j] Some by simp
    ultimately show ?thesis
      by (cases "e = x \<and> j = i") (auto simp: lookS_def slot_pushForRelated slotList_def)
  next
    case None
    then have n: "slot M e j = None" using agree_look [OF ag, of e j] by simp
    show ?thesis
    proof (cases "e = x \<and> j = i")
      case True
      with None pushForRelatedS_None [of m x i r st]
      have "slotS m' e j = Some (length st)" "st' = st @ [[r]]" by (auto simp: p)
      with True n show ?thesis
        by (simp add: lookS_def slot_pushForRelated slotList_def)
    next
      case False
      have "slotS m' e j = slotS m e j"
      proof (cases "slotS m x i")
        case None
        from pushForRelatedS_None [OF None, of r st] False show ?thesis by (auto simp: p)
      next
        case (Some a0)
        from pushForRelatedS_Some [OF Some, of r st] show ?thesis by (auto simp: p)
      qed
      with False None n show ?thesis
        by (auto simp: lookS_def slot_pushForRelated)
    qed
  qed
  then show ?thesis
    unfolding p agree_def using agree_table [OF ag] by (simp add: tb Map_get_pushForRelated)
qed

lemma forRelatedS_refines:
  assumes "invS s" and "agree s M" and "slotS (fst s) r jf = Some addr"
    and "jf \<noteq> jr \<or> r \<notin> set (drop i (snd s ! addr))"
  shows "\<exists>s'. forRelatedS r jr addr i s = Some s' \<and> invS s' \<and>
           agree s' (fold (pushForRelated r jr) (drop i (snd s ! addr)) M)"
  using assms
proof (induction "length (snd s ! addr) - i" arbitrary: i s M)
  case 0
  then have "\<not> i < length (snd s ! addr)" by simp
  then have "forRelatedS r jr addr i s = Some s"
    by (subst forRelatedS.simps) simp
  moreover have "drop i (snd s ! addr) = []"
    using \<open>\<not> i < length (snd s ! addr)\<close> by simp
  ultimately show ?case using 0 by simp
next
  case (Suc n)
  obtain m st where s: "s = (m, st)" by (cases s)
  from Suc(2) have lt: "i < length (st ! addr)" by (simp add: s)
  define x where "x = st ! addr ! i"
  define s1 where "s1 = pushForRelatedS r jr x (m, st)"
  have dr: "drop i (st ! addr) = x # drop (i + 1) (st ! addr)"
    using lt by (simp add: x_def Cons_nth_drop_Suc)
  have ne: "(r, jf) \<noteq> (x, jr)"
    using Suc(6) dr by (auto simp: s)
  have ag1: "agree s1 (pushForRelated r jr x M)"
    unfolding s1_def using pushForRelatedS_agree Suc(3,4) s by blast
  from pushForRelatedS_store [OF Suc(3) [unfolded s], of r jr x] Suc(5) ne
  have inv1: "invS s1" and sl1: "slotS (fst s1) r jf = Some addr"
    and same: "snd s1 ! addr = st ! addr"
    unfolding s1_def by (auto simp: s)
  have n: "n = length (snd s1 ! addr) - (i + 1)"
    using Suc(2) by (simp add: same s)
  have cond: "jf \<noteq> jr \<or> r \<notin> set (drop (i + 1) (snd s1 ! addr))"
    using Suc(6) dr by (auto simp: s same)
  from Suc(1) [OF n inv1 ag1 sl1 cond] obtain s' where
    r: "forRelatedS r jr addr (i + 1) s1 = Some s'" "invS s'"
       "agree s' (fold (pushForRelated r jr) (drop (i + 1) (snd s1 ! addr)) (pushForRelated r jr x M))"
    by blast
  have "forRelatedS r jr addr i s = forRelatedS r jr addr (i + 1) s1"
    by (subst forRelatedS.simps) (simp add: s lt s1_def x_def)
  moreover have "fold (pushForRelated r jr) (drop i (snd s ! addr)) M =
      fold (pushForRelated r jr) (drop (i + 1) (snd s1 ! addr)) (pushForRelated r jr x M)"
    by (simp add: s same dr)
  ultimately show ?case using r by simp
qed

lemma setForRelatingS_store:
  assumes inv: "invS (m, st)"
  shows "invS (setForRelatingS m r j (length st), st @ [E])"
proof -
  have fresh: "slotS m e k \<noteq> Some (length st)" for e k
    using invS_bound [OF inv, of e k "length st"] by auto
  show ?thesis
    unfolding invS_def fst_conv snd_conv
  proof (intro conjI allI impI)
    fix e k a assume "slotS (setForRelatingS m r j (length st)) e k = Some a"
    then show "a < length (st @ [E])"
      using invS_bound [OF inv, of e k a] by (auto simp: slotS_setForRelatingS split: if_splits)
  next
    fix e k e' k' a
    assume "slotS (setForRelatingS m r j (length st)) e k = Some a"
      "slotS (setForRelatingS m r j (length st)) e' k' = Some a"
    then have "e = e' \<and> k = k'"
      using invS_inj [OF inv, of e k a e' k'] fresh
      by (auto simp: slotS_setForRelatingS split: if_splits)
    then show "e = e'" "k = k'" by auto
  qed
qed

lemma setForRelatingS_agree:
  assumes inv: "invS (m, st)" and ag: "agree (m, st) M"
  shows "agree (setForRelatingS m r j (length st), st @ [E]) (setForRelating M r j E)"
proof -
  have "lookS (setForRelatingS m r j (length st), st @ [E]) e k = slot (setForRelating M r j E) e k" for e k
  proof (cases "e = r \<and> k = j")
    case True
    then show ?thesis by (simp add: lookS_def slotS_setForRelatingS slot_setForRelating)
  next
    case False
    have "map_option (\<lambda>a. (st @ [E]) ! a) (slotS m e k) = map_option (\<lambda>a. st ! a) (slotS m e k)"
      using invS_bound [OF inv, of e k] by (cases "slotS m e k") (auto simp: nth_append)
    with False show ?thesis
      using agree_look [OF ag, of e k]
      by (auto simp: lookS_def slotS_setForRelatingS slot_setForRelating)
  qed
  then show ?thesis
    unfolding agree_def using agree_table [OF ag]
    by (simp add: Map_get_setForRelating Map_get_setForRelatingS)
qed

lemma indexRelationS_refines:
  assumes "invS s" and "agree s M" and "idxRelating a \<noteq> idxRelated a \<or> r \<notin> set E"
  shows "\<exists>s'. indexRelationS a r E s = Some s' \<and> invS s' \<and> agree s' (indexRelation a r E M)"
proof -
  obtain m st where s: "s = (m, st)" by (cases s)
  define s1 where "s1 = (setForRelatingS m r (idxRelating a) (length st), st @ [E])"
  have inv1: "invS s1"
    unfolding s1_def using setForRelatingS_store assms(1) s by blast
  have ag1: "agree s1 (setForRelating M r (idxRelating a) E)"
    unfolding s1_def using setForRelatingS_agree assms(1,2) s by blast
  have sl: "slotS (fst s1) r (idxRelating a) = Some (length st)"
    by (simp add: s1_def slotS_setForRelatingS)
  have E: "snd s1 ! length st = E" by (simp add: s1_def)
  have cond: "idxRelating a \<noteq> idxRelated a \<or> r \<notin> set (drop 0 (snd s1 ! length st))"
    using assms(3) by (simp add: E)
  from forRelatedS_refines [OF inv1 ag1 sl cond] obtain s' where
    "forRelatedS r (idxRelated a) (length st) 0 s1 = Some s'" "invS s'"
    "agree s' (fold (pushForRelated r (idxRelated a)) E (setForRelating M r (idxRelating a) E))"
    by (auto simp: E)
  then show ?thesis
    by (simp add: indexRelationS_def indexRelation_def s s1_def idxRelating_def idxRelated_def Let_def)
qed

lemma indexRecordsS_refines:
  assumes "invS s" and "agree s M"
    and "list_all (\<lambda>(a, r, E). idxRelating a \<noteq> idxRelated a \<or> r \<notin> set E) recs"
  shows "\<exists>s'. indexRecordsS recs s = Some s' \<and> invS s' \<and> agree s' (indexRecords recs M)"
  using assms
proof (induction recs arbitrary: s M)
  case Nil
  then show ?case by (simp add: indexRecords_def)
next
  case (Cons rec recs)
  obtain a r E where rec: "rec = (a, r, E)" by (cases rec)
  from Cons(4) have c: "idxRelating a \<noteq> idxRelated a \<or> r \<notin> set E"
    and rest: "list_all (\<lambda>(a, r, E). idxRelating a \<noteq> idxRelated a \<or> r \<notin> set E) recs"
    by (auto simp: rec)
  from indexRelationS_refines [OF Cons(2) Cons(3) c] obtain s1 where
    s1: "indexRelationS a r E s = Some s1" "invS s1" "agree s1 (indexRelation a r E M)"
    by blast
  from Cons(1) [OF s1(2) s1(3) rest] obtain s' where
    "indexRecordsS recs s1 = Some s'" "invS s'" "agree s' (indexRecords recs (indexRelation a r E M))"
    by blast
  then show ?case using s1(1) by (simp add: rec indexRecords_def)
qed

lemma invS_empty: "invS ([], [])"
  by (simp add: invS_def slotS_def Map_get_def)

lemma agree_empty: "agree ([], []) []"
  by (simp add: agree_def lookS_def slotS_def slot_def Map_get_def)


lemma forRelatedS_never_returns:
  assumes "forRelatedS r j addr i s = Some s'"
  shows "\<not> (invS s \<and> slotS (fst s) r j = Some addr \<and> r \<in> set (drop i (snd s ! addr)))"
proof (rule forRelatedS.raw_induct
    [where P = "\<lambda>r j addr i s s'.
       \<not> (invS s \<and> slotS (fst s) r j = Some addr \<and> r \<in> set (drop i (snd s ! addr)))",
     OF _ assms])
  fix f r j addr i s s'
  assume IH: "\<And>r j addr i s s'. f r j addr i s = Some s' \<Longrightarrow>
      \<not> (invS s \<and> slotS (fst s) r j = Some addr \<and> r \<in> set (drop i (snd s ! addr)))"
    and step: "(if i < length (snd s ! addr)
                then f r j addr (i + 1) (pushForRelatedS r j (snd s ! addr ! i) s)
                else Some s) = Some s'"
  show "\<not> (invS s \<and> slotS (fst s) r j = Some addr \<and> r \<in> set (drop i (snd s ! addr)))"
  proof
    assume a: "invS s \<and> slotS (fst s) r j = Some addr \<and> r \<in> set (drop i (snd s ! addr))"
    obtain m st where s: "s = (m, st)" by (cases s)
    from a have lt: "i < length (st ! addr)" by (cases "i < length (st ! addr)") (auto simp: s)
    define x where "x = st ! addr ! i"
    define s1 where "s1 = pushForRelatedS r j x (m, st)"
    have dr: "drop i (st ! addr) = x # drop (i + 1) (st ! addr)"
      using lt by (simp add: x_def Cons_nth_drop_Suc)
    from a have inv: "invS (m, st)" and sl: "slotS m r j = Some addr" by (auto simp: s)
    from pushForRelatedS_store [OF inv, of r j x] sl
    have inv1: "invS s1" and sl1: "slotS (fst s1) r j = Some addr"
      and st1: "snd s1 ! addr = (if r = x then st ! addr @ [r] else st ! addr)"
      unfolding s1_def by auto
    have "r \<in> set (drop (i + 1) (snd s1 ! addr))"
    proof (cases "r = x")
      case True
      then show ?thesis using lt by (simp add: st1)
    next
      case False
      with a dr show ?thesis by (auto simp: s st1)
    qed
    moreover from step have "f r j addr (i + 1) s1 = Some s'"
      using lt by (simp add: s s1_def x_def)
    ultimately show False using IH inv1 sl1 by blast
  qed
qed


lemma indexRelationS_never_returns:
  assumes "invS s" and "idxRelating a = idxRelated a" and "r \<in> set E"
  shows "indexRelationS a r E s = None"
proof -
  obtain m st where s: "s = (m, st)" by (cases s)
  define s1 where "s1 = (setForRelatingS m r (idxRelating a) (length st), st @ [E])"
  have inv1: "invS s1"
    unfolding s1_def using setForRelatingS_store assms(1) s by blast
  have sl: "slotS (fst s1) r (idxRelated a) = Some (length st)"
    by (simp add: s1_def slotS_setForRelatingS assms(2))
  have "r \<in> set (drop 0 (snd s1 ! length st))"
    using assms(3) by (simp add: s1_def)
  with inv1 sl have "forRelatedS r (idxRelated a) (length st) 0 s1 \<noteq> Some s'" for s'
    using forRelatedS_never_returns [of r "idxRelated a" "length st" 0 s1 s'] by blast
  then have "forRelatedS r (idxRelated a) (length st) 0 s1 = None"
    by (cases "forRelatedS r (idxRelated a) (length st) 0 s1") auto
  then show ?thesis
    by (simp add: indexRelationS_def s s1_def idxRelating_def idxRelated_def Let_def)
qed

lemma aliasFree_recordsOf:
  assumes "knownRoles tbl" and "separatedRoles tbl"
  shows "aliasFree (recordsOf tbl model)"
  unfolding aliasFree_def list_all_iff
  using idx_separated [OF assms] by fastforce

theorem indexRecordsS_agrees:
  assumes "aliasFree recs"
  shows "\<exists>s'. indexRecordsS recs ([], []) = Some s' \<and> agree s' (indexRecords recs [])"
  using indexRecordsS_refines [OF invS_empty agree_empty assms [unfolded aliasFree_def]] by blast

theorem process_agrees_with_store:
  assumes "knownRoles tbl" and "separatedRoles tbl"
    and "hasProperties model" and "relationMaps indexer (uuid model) = None"
  shows "\<exists>s' relationsMap.
           indexRecordsS (recordsOf tbl model) ([], []) = Some s' \<and>
           fst (process tbl indexer model) = Inr relationsMap \<and>
           agree s' relationsMap"
  using indexRecordsS_agrees [OF aliasFree_recordsOf [OF assms(1,2)], of model]
  by (simp add: process_fresh [OF assms(3,4)])

lemma indexRecordsS_aggregatesModel:
  "indexRecordsS (recordsOf sampleTable aggregatesModel) ([], []) =
     Some ([(1, [(0, 3)]), (2, [(1, 1)]), (4, [(1, 2)]), (3, [(1, 4)])],
           [[2, 4], [1], [1, 1], [3, 4], [1]])"
  by code_simp

subsection \<open>Lemmas on serialization\<close>

lemma keys_insertIndexKey: "set (map fst (insertIndexKey k v obj)) = insert k (set (map fst obj))"
proof (induction obj)
  case Nil
  show ?case by simp
next
  case (Cons p obj)
  obtain k' v' where "p = (k', v')" by (cases p)
  with Cons show ?case by (simp add: insert_commute)
qed

lemma distinct_insertIndexKey:
  "k \<notin> set (map fst obj) \<Longrightarrow> distinct (map fst obj) \<Longrightarrow> distinct (map fst (insertIndexKey k v obj))"
proof (induction obj)
  case Nil
  then show ?case by simp
next
  case (Cons p obj)
  then show ?case
    using keys_insertIndexKey [of k v obj] by (cases p) auto
qed

lemma map_of_insertIndexKey:
  "k \<notin> set (map fst obj) \<Longrightarrow> map_of (insertIndexKey k v obj) = (map_of obj)(k \<mapsto> v)"
  by (induction obj) (auto simp: fun_eq_iff)

lemma keys_update: "set (map fst (AList.update k v obj)) = insert k (set (map fst obj))"
  by (induction obj) auto

lemma keys_obj_set: "set (map fst (obj_set obj k v)) = insert k (set (map fst obj))"
  unfolding obj_set_def using keys_insertIndexKey [of k v obj] keys_update [of k v obj]
  by (simp del: set_map)

lemma distinct_obj_set: "distinct (map fst obj) \<Longrightarrow> distinct (map fst (obj_set obj k v))"
  unfolding obj_set_def using distinct_insertIndexKey [of k obj v]
  by (simp add: AList.distinct_update del: set_map)

lemma map_of_obj_set: "map_of (obj_set obj k v) = (map_of obj)(k \<mapsto> v)"
proof -
  have "map_of (obj @ [(k, v)]) = (map_of obj)(k \<mapsto> v)" if "k \<notin> set (map fst obj)"
  proof -
    from that have "map_of obj k = None" by (simp add: map_of_eq_None_iff)
    then show ?thesis
      by (auto simp: fun_eq_iff map_add_def split: option.splits)
  qed
  then show ?thesis
    unfolding obj_set_def using map_of_insertIndexKey [of k obj v]
    by (simp add: AList.update_conv' del: set_map)
qed

lemma serializeSlots_Cons:
  "serializeSlots ((j, xs) # rest) slots = serializeSlots rest (obj_set slots (ToString j) xs)"
  by (simp add: serializeSlots_def)

lemma serializeSlots_props:
  assumes "distinct (map fst s)"
  shows "map_of (serializeSlots s slots) (ToString j) =
           (case map_of s j of Some xs \<Rightarrow> Some xs | None \<Rightarrow> map_of slots (ToString j))"
    and "set (map fst (serializeSlots s slots)) = set (map fst slots) \<union> ToString ` set (map fst s)"
    and "distinct (map fst slots) \<Longrightarrow> distinct (map fst (serializeSlots s slots))"
  using assms
proof (induction s arbitrary: slots)
  case Nil
  {
    case 1 show ?case by (simp add: serializeSlots_def)
  next
    case 2 show ?case by (simp add: serializeSlots_def)
  next
    case 3 then show ?case by (simp add: serializeSlots_def)
  }
next
  case (Cons p rest)
  obtain j0 xs0 where p: "p = (j0, xs0)" by (cases p)
  {
    case 1
    then have d: "distinct (map fst rest)" and n: "map_of rest j0 = None"
      by (auto simp: p map_of_eq_None_iff)
    show ?case
      unfolding p serializeSlots_Cons Cons.IH(1) [OF d]
      using n ToString_inj [of j j0]
      by (auto simp: map_of_obj_set split: option.splits)
  next
    case 2
    then have d: "distinct (map fst rest)" by (simp add: p)
    show ?case
      unfolding p serializeSlots_Cons Cons.IH(2) [OF d] keys_obj_set
      by auto
  next
    case 3
    then have d: "distinct (map fst rest)" by (simp add: p)
    show ?case
      unfolding p serializeSlots_Cons
      using 3(1) by (intro Cons.IH(3) [OF _ d] distinct_obj_set)
  }
qed

lemma serializeRelation_loop_map:
  "map_of object key = Some slots \<Longrightarrow>
   map_of (fold (serializeRelation key) relations object) =
     (map_of object)(key \<mapsto> serializeSlots relations slots)"
proof (induction relations arbitrary: object slots)
  case Nil
  then show ?case by (auto simp: serializeSlots_def fun_eq_iff)
next
  case (Cons p rest)
  obtain j xs where p: "p = (j, xs)" by (cases p)
  let ?object1 = "obj_set object key (obj_set slots (ToString j) xs)"
  have m1: "map_of ?object1 key = Some (obj_set slots (ToString j) xs)"
    by (simp add: map_of_obj_set)
  have "fold (serializeRelation key) (p # rest) object = fold (serializeRelation key) rest ?object1"
    using Cons.prems by (simp add: p serializeRelation_def obj_get_def)
  then show ?case
    by (auto simp add: Cons.IH [OF m1] p serializeSlots_Cons map_of_obj_set fun_eq_iff)
qed

lemma serializeRelation_loop_keys:
  "map_of object key = Some slots \<Longrightarrow>
   set (map fst (fold (serializeRelation key) relations object)) = set (map fst object)"
proof (induction relations arbitrary: object slots)
  case Nil
  then show ?case by simp
next
  case (Cons p rest)
  obtain j xs where p: "p = (j, xs)" by (cases p)
  let ?object1 = "obj_set object key (obj_set slots (ToString j) xs)"
  have m1: "map_of ?object1 key = Some (obj_set slots (ToString j) xs)"
    by (simp add: map_of_obj_set)
  have k: "key \<in> set (map fst object)"
    using Cons.prems by (metis map_of_eq_None_iff option.distinct(1) set_map)
  have "fold (serializeRelation key) (p # rest) object = fold (serializeRelation key) rest ?object1"
    using Cons.prems by (simp add: p serializeRelation_def obj_get_def)
  then show ?case
    using k by (simp add: Cons.IH [OF m1] keys_obj_set insert_absorb del: set_map)
qed

lemma serializeRelation_loop_distinct:
  "map_of object key = Some slots \<Longrightarrow> distinct (map fst object) \<Longrightarrow>
   distinct (map fst (fold (serializeRelation key) relations object))"
proof (induction relations arbitrary: object slots)
  case Nil
  then show ?case by simp
next
  case (Cons p rest)
  obtain j xs where p: "p = (j, xs)" by (cases p)
  let ?object1 = "obj_set object key (obj_set slots (ToString j) xs)"
  have m1: "map_of ?object1 key = Some (obj_set slots (ToString j) xs)"
    by (simp add: map_of_obj_set)
  have "fold (serializeRelation key) (p # rest) object = fold (serializeRelation key) rest ?object1"
    using Cons.prems by (simp add: p serializeRelation_def obj_get_def)
  then show ?case
    by (simp add: Cons.IH [OF m1 distinct_obj_set [OF Cons.prems(2)]])
qed

lemma serializeEntity_unfold:
  "ToString e \<notin> set (map fst object) \<Longrightarrow>
   serializeEntity (e, s) object = fold (serializeRelation (ToString e)) s (obj_set object (ToString e) [])"
  by (simp add: serializeEntity_def obj_get_def map_of_eq_None_iff Let_def)

lemma serializeEntity_map:
  "ToString e \<notin> set (map fst object) \<Longrightarrow>
   map_of (serializeEntity (e, s) object) = (map_of object)(ToString e \<mapsto> serializeSlots s [])"
  by (simp add: serializeEntity_unfold
      serializeRelation_loop_map [where slots = "[]"] map_of_obj_set)

lemma serializeEntity_keys:
  "ToString e \<notin> set (map fst object) \<Longrightarrow>
   set (map fst (serializeEntity (e, s) object)) = insert (ToString e) (set (map fst object))"
  by (simp add: serializeEntity_unfold
      serializeRelation_loop_keys [where slots = "[]"] map_of_obj_set keys_obj_set del: set_map)

lemma serializeEntity_distinct:
  "ToString e \<notin> set (map fst object) \<Longrightarrow> distinct (map fst object) \<Longrightarrow>
   distinct (map fst (serializeEntity (e, s) object))"
  by (simp add: serializeEntity_unfold
      serializeRelation_loop_distinct [where slots = "[]"] map_of_obj_set distinct_obj_set)

lemma serializeObject_step:
  assumes "distinct (map fst ((e0, s0) # rest))"
    and "\<forall>e \<in> set (map fst ((e0, s0) # rest)). ToString e \<notin> set (map fst object)"
  shows "distinct (map fst rest)" and "map_of rest e0 = None"
    and "ToString e0 \<notin> set (map fst object)"
    and "\<forall>e \<in> set (map fst rest). ToString e \<notin> set (map fst (serializeEntity (e0, s0) object))"
proof -
  show a: "distinct (map fst rest)" using assms(1) by simp
  have b: "e0 \<notin> set (map fst rest)" using assms(1) by simp
  then show "map_of rest e0 = None" by (simp add: map_of_eq_None_iff)
  show c: "ToString e0 \<notin> set (map fst object)" using assms(2) by simp
  show "\<forall>e \<in> set (map fst rest). ToString e \<notin> set (map fst (serializeEntity (e0, s0) object))"
    unfolding serializeEntity_keys [OF c]
    using assms(2) b ToString_inj by auto
qed

lemma serializeObject_map:
  "distinct (map fst m) \<Longrightarrow> \<forall>e \<in> set (map fst m). ToString e \<notin> set (map fst object) \<Longrightarrow>
   map_of (fold serializeEntity m object) (ToString e) =
     (case map_of m e of Some s \<Rightarrow> Some (serializeSlots s []) | None \<Rightarrow> map_of object (ToString e))"
proof (induction m arbitrary: object)
  case Nil
  show ?case by simp
next
  case (Cons p rest)
  obtain e0 s0 where p: "p = (e0, s0)" by (cases p)
  note h = serializeObject_step [OF Cons.prems [unfolded p]]
  show ?case
    using h(2) ToString_inj [of e e0]
    by (auto simp: p Cons.IH [OF h(1) h(4)] serializeEntity_map [OF h(3)] split: option.splits)
qed

lemma serializeObject_keys:
  "distinct (map fst m) \<Longrightarrow> \<forall>e \<in> set (map fst m). ToString e \<notin> set (map fst object) \<Longrightarrow>
   set (map fst (fold serializeEntity m object)) = set (map fst object) \<union> ToString ` set (map fst m)"
proof (induction m arbitrary: object)
  case Nil
  show ?case by simp
next
  case (Cons p rest)
  obtain e0 s0 where p: "p = (e0, s0)" by (cases p)
  note h = serializeObject_step [OF Cons.prems [unfolded p]]
  have "set (map fst (fold serializeEntity (p # rest) object)) =
      insert (ToString e0) (set (map fst object)) \<union> ToString ` set (map fst rest)"
    using Cons.IH [OF h(1) h(4)] serializeEntity_keys [OF h(3), of s0]
    by (simp add: p del: set_map)
  then show ?case by (simp add: p)
qed

lemma serializeObject_distinct:
  "distinct (map fst m) \<Longrightarrow> \<forall>e \<in> set (map fst m). ToString e \<notin> set (map fst object) \<Longrightarrow>
   distinct (map fst object) \<Longrightarrow> distinct (map fst (fold serializeEntity m object))"
proof (induction m arbitrary: object)
  case Nil
  then show ?case by simp
next
  case (Cons p rest)
  obtain e0 s0 where p: "p = (e0, s0)" by (cases p)
  note h = serializeObject_step [OF Cons.prems(1,2) [unfolded p]]
  show ?case
    using Cons.IH [OF h(1) h(4) serializeEntity_distinct [OF h(3) Cons.prems(3)]]
    by (simp add: p)
qed

lemma distinct_Map_set: "distinct (map fst m) \<Longrightarrow> distinct (map fst (Map_set m k v))"
  by (simp add: Map_set_def AList.distinct_update)

lemma map_of_Map_set: "map_of (Map_set m k v) = (map_of m)(k \<mapsto> v)"
  by (simp add: Map_set_def AList.update_conv')

lemma relationMapFrom_props:
  "distinct (map fst slots) \<Longrightarrow> set (map fst slots) \<subseteq> range ToString \<Longrightarrow> distinct (map fst acc) \<Longrightarrow>
   \<exists>r. relationMapFrom slots acc = Some r \<and> distinct (map fst r) \<and>
       (\<forall>j. map_of r j = (case map_of slots (ToString j) of Some xs \<Rightarrow> Some xs | None \<Rightarrow> map_of acc j))"
proof (induction slots arbitrary: acc)
  case Nil
  then show ?case by simp
next
  case (Cons p rest)
  obtain k xs where p: "p = (k, xs)" by (cases p)
  from Cons.prems p obtain j0 where k: "k = ToString j0" by auto
  have d: "distinct (map fst rest)" and n: "map_of rest k = None"
    and sub: "set (map fst rest) \<subseteq> range ToString"
    using Cons.prems by (auto simp: p map_of_eq_None_iff)
  from Cons.IH [OF d sub distinct_Map_set [OF Cons.prems(3)], of j0 xs]
  obtain r where r: "relationMapFrom rest (Map_set acc j0 xs) = Some r" "distinct (map fst r)"
    "\<forall>j. map_of r j = (case map_of rest (ToString j) of Some ys \<Rightarrow> Some ys
                        | None \<Rightarrow> map_of (Map_set acc j0 xs) j)"
    by blast
  have "relationMapFrom (p # rest) acc = Some r"
    by (simp add: p k Number_ToString r(1))
  moreover have "map_of r j = (case map_of (p # rest) (ToString j) of Some ys \<Rightarrow> Some ys
                        | None \<Rightarrow> map_of acc j)" for j
    using r(3) n ToString_inj [of j j0]
    by (auto simp: p k map_of_Map_set split: option.splits)
  ultimately show ?case using r(2) by blast
qed

lemma indexMapFrom_props:
  "distinct (map fst object) \<Longrightarrow> set (map fst object) \<subseteq> range ToString \<Longrightarrow>
   \<forall>(k, slots) \<in> set object. distinct (map fst slots) \<and> set (map fst slots) \<subseteq> range ToString \<Longrightarrow>
   distinct (map fst acc) \<Longrightarrow>
   \<exists>r. indexMapFrom object acc = Some r \<and> distinct (map fst r) \<and>
       (\<forall>e. map_of r e = (case map_of object (ToString e) of
                             Some slots \<Rightarrow> relationMapFrom slots []
                           | None \<Rightarrow> map_of acc e))"
proof (induction object arbitrary: acc)
  case Nil
  then show ?case by simp
next
  case (Cons p rest)
  obtain k slots where p: "p = (k, slots)" by (cases p)
  from Cons.prems p obtain e0 where k: "k = ToString e0" by auto
  have d: "distinct (map fst rest)" and n: "map_of rest k = None"
    and sub: "set (map fst rest) \<subseteq> range ToString"
    and inner: "\<forall>(k, slots) \<in> set rest. distinct (map fst slots) \<and> set (map fst slots) \<subseteq> range ToString"
    and here: "distinct (map fst slots)" "set (map fst slots) \<subseteq> range ToString"
    using Cons.prems by (auto simp: p map_of_eq_None_iff)
  from relationMapFrom_props [OF here, of "[]"]
  obtain rm where rm: "relationMapFrom slots [] = Some rm" by auto
  from Cons.IH [OF d sub inner distinct_Map_set [OF Cons.prems(4)], of e0 rm]
  obtain r where r: "indexMapFrom rest (Map_set acc e0 rm) = Some r" "distinct (map fst r)"
    "\<forall>e. map_of r e = (case map_of rest (ToString e) of Some sl \<Rightarrow> relationMapFrom sl []
                        | None \<Rightarrow> map_of (Map_set acc e0 rm) e)"
    by blast
  have "indexMapFrom (p # rest) acc = Some r"
    by (simp add: p k Number_ToString r(1) rm)
  moreover have "map_of r e = (case map_of (p # rest) (ToString e) of Some sl \<Rightarrow> relationMapFrom sl []
                        | None \<Rightarrow> map_of acc e)" for e
    using r(3) n rm ToString_inj [of e e0]
    by (auto simp: p k map_of_Map_set split: option.splits)
  ultimately show ?case using r(2) by blast
qed

lemma wellFormedMap_slots:
  "wellFormedMap m \<Longrightarrow> map_of m e = Some s \<Longrightarrow> distinct (map fst s)"
  by (auto simp: wellFormedMap_def list_all_iff dest!: map_of_SomeD)

lemma serializeSlots_range: "distinct (map fst s) \<Longrightarrow> set (map fst (serializeSlots s [])) \<subseteq> range ToString"
  by (auto simp: serializeSlots_props(2) simp del: set_map)

subsection \<open>Lemmas on the property facet\<close>


lemma getItemsAttrName_Some:
  "getProp attrs ''type'' = Inr t \<Longrightarrow> getItemsAttrName t = Some k \<Longrightarrow> isObject attrs"
  by (cases attrs)
     (auto simp: getProp_def getItemsAttrName_def strictEquals_def isObject_def Let_def split: if_splits)

lemma isObject_setProp: "isObject v \<Longrightarrow> isObject (setProp v k x)"
  by (cases v) (auto simp: isObject_def setProp_def)

lemma getPset_objects:
  "getPset model definitionID sets = Inr sets' \<Longrightarrow> list_all isObject sets \<Longrightarrow> list_all isObject sets'"
  unfolding getPset_def Let_def
  by (auto simp: bindE_Inr_iff split: if_splits option.splits
      intro!: isObject_setProp getItemsAttrName_Some)

lemma foldE_getPset_objects:
  "foldE (getPset model) definitions sets = Inr sets' \<Longrightarrow> list_all isObject sets \<Longrightarrow> list_all isObject sets'"
proof (induction definitions arbitrary: sets)
  case Nil
  then show ?case by simp
next
  case (Cons d ds)
  from Cons.prems(1) obtain sets1 where a: "getPset model d sets = Inr sets1"
    and b: "foldE (getPset model) ds sets1 = Inr sets'"
    by (auto simp: bindE_Inr_iff)
  show ?case
    using Cons.IH [OF b getPset_objects [OF a Cons.prems(2)]] .
qed

lemma getPsets_objects: "getPsets indexer model expressID = Inr sets \<Longrightarrow> list_all isObject sets"
  unfolding getPsets_def
  by (auto split: option.splits dest: foldE_getPset_objects)

lemma filterSet_no_match:
  "isObject pset \<Longrightarrow> \<not> matches (setName pset) (propertySet this) ''PropertySet'' \<Longrightarrow>
   filterSet matches this pset (ms, cs) = Inr (ms, cs)"
  by (cases pset) (auto simp: filterSet_def isObject_def setName_def getProp_def Let_def)

lemma foldE_filterSet_no_match:
  "list_all isObject sets \<Longrightarrow>
   \<forall>pset \<in> set sets. \<not> matches (setName pset) (propertySet this) ''PropertySet'' \<Longrightarrow>
   foldE (filterSet matches this) sets (ms, cs) = Inr (ms, cs)"
  by (induction sets) (auto simp: filterSet_no_match)

lemma getPsets_demo: "getPsets demoIndexer demoModel 1 = Inr [demoResolvedPset]"
  by code_simp

lemma getProp_truthy: "truthy v \<Longrightarrow> getProp v k = Inr (case getProp v k of Inr x \<Rightarrow> x | Inl _ \<Rightarrow> JUndefined)"
  by (cases v) (auto simp: getProp_def truthy_def)

lemma mapE_value_truthy:
  "list_all truthy els \<Longrightarrow> mapE (\<lambda>el. getProp el ''value'') els = Inr (map valueOf els)"
proof (induction els)
  case Nil
  then show ?case by simp
next
  case (Cons el els)
  then have "getProp el ''value'' = Inr (valueOf el)"
    using getProp_truthy [of el "''value''"] by (simp add: valueOf_def)
  with Cons show ?case by simp
qed

lemma find_truthy:
  "list_all truthy els \<Longrightarrow> (case find P els of Some el \<Rightarrow> truthy el | None \<Rightarrow> False) = list_ex P els"
  by (induction els) auto


lemma count_list_distinct: "distinct E \<Longrightarrow> e \<in> set E \<Longrightarrow> count_list E e = 1"
  by (induction E) auto

lemma backRefs_one_per_record:
  "\<forall>(a, r, E) \<in> set recs. distinct E \<Longrightarrow>
   backRefs recs e role =
     map (\<lambda>(a, r, E). r) (filter (\<lambda>(a, r, E). forRelated a = role \<and> e \<in> set E) recs)"
proof (induction recs)
  case Nil
  show ?case by (simp add: backRefs_def)
next
  case (Cons x recs)
  obtain a r E where x: "x = (a, r, E)" by (cases x)
  from Cons.prems x have d: "distinct E" and rest: "\<forall>(a, r, E) \<in> set recs. distinct E" by auto
  have "backRefs (x # recs) e role =
      (if forRelated a = role then replicate (count_list E e) r else []) @ backRefs recs e role"
    by (simp add: backRefs_def x)
  then show ?case
    using Cons.IH [OF rest] count_list_distinct [OF d, of e]
    by (auto simp: x count_list_0_iff)
qed

lemma mapE_length: "mapE f xs = Inr ys \<Longrightarrow> length ys = length xs"
  by (induction xs arbitrary: ys) (auto simp: bindE_Inr_iff)

lemma mapE_nth: "mapE f xs = Inr ys \<Longrightarrow> i < length xs \<Longrightarrow> f (xs ! i) = Inr (ys ! i)"
proof (induction xs arbitrary: ys i)
  case Nil
  then show ?case by simp
next
  case (Cons x xs)
  from Cons.prems(1) obtain y ys' where y: "f x = Inr y" "mapE f xs = Inr ys'" "ys = y # ys'"
    by (auto simp: bindE_Inr_iff)
  show ?case
    using Cons.IH [OF y(2)] Cons.prems(2) y by (cases i) auto
qed







lemma testEntity_no_matching_property_set:
  assumes "getProp attrs ''GlobalId'' = Inr globalId"
    and "getPsets indexer model expressID = Inr sets"
    and "\<forall>pset \<in> set sets. \<not> matches (setName pset) (propertySet this) ''PropertySet''"
  shows "testEntity matches this indexer model (expressID, attrs) =
           Inr \<lparr> resultGuid = optProp globalId ''value'', resultExpressID = expressID,
                 resultPass = False,
                 resultChecks = [\<lparr> checkParameter = ''PropertySet'', currentValue = JNull,
                                   requiredValue = parameter (propertySet this), checkPass = False \<rparr>],
                 resultCardinality = cardinality this \<rparr>"
proof -
  have "foldE (filterSet matches this) sets ([], []) = Inr ([], [])"
    using foldE_filterSet_no_match [OF getPsets_objects [OF assms(2)], of matches this]
      assms(3) by simp
  then show ?thesis
    by (simp add: testEntity_def assms(1,2) Let_def)
qed

lemma testEntity_GlobalId:
  "testEntity matches this indexer model (expressID, attrs) = Inr result \<Longrightarrow>
   \<exists>globalId. getProp attrs ''GlobalId'' = Inr globalId"
  by (auto simp: testEntity_def bindE_Inr_iff)

section \<open>The claims\<close>

subsection \<open>The relations indexer\<close>

text \<open>
  Claim C1, as amended. Let a model be indexed by \<open>process\<close> for the first time, with a
  table whose attribute names are known and separated. For a relation record with
  attribute pair \<open>a\<close>, relating entity \<open>r\<close> and related entities \<open>E\<close>:
  if no later record has the same relating entity and the same forward attribute, then
  \<open>getEntityRelations(model, r, forRelating)\<close> returns exactly \<open>E\<close>; and for every
  \<open>e\<close> in \<open>E\<close>, \<open>getEntityRelations(model, e, forRelated)\<close> returns a list that
  contains \<open>r\<close>.
\<close>

theorem process_bidirectional_last_record:
  assumes "knownRoles tbl" and "separatedRoles tbl"
    and "hasProperties model" and "relationMaps indexer (uuid model) = None"
    and "process tbl indexer model = (result, indexer')"
    and "recordsOf tbl model = pre @ (a, r, E) # post"
  shows "((\<forall>(a', r', E') \<in> set post. \<not> (r' = r \<and> forRelating a' = forRelating a)) \<longrightarrow>
            getEntityRelations indexer' model r (forRelating a) = Some E) \<and>
         (\<forall>e \<in> set E. \<exists>rs. getEntityRelations indexer' model e (forRelated a) = Some rs \<and> r \<in> set rs)"
proof -
  let ?recs = "recordsOf tbl model"
  let ?M = "indexRecords ?recs []"
  have here: "(a, r, E) \<in> set ?recs" by (simp add: assms(6))
  have maps: "relationMaps indexer' (uuid model) = Some ?M"
    using assms(5) process_fresh [OF assms(3,4), of tbl] by (auto simp: relationMaps_setRelationMap)
  have fwd: "getEntityRelations indexer' model r (forRelating a) = Some E"
    if last: "\<forall>(a', r', E') \<in> set post. \<not> (r' = r \<and> forRelating a' = forRelating a)"
  proof -
    have post: "\<forall>(a', r', E') \<in> set post.
        idxRelated a' \<noteq> idxRelating a \<and> \<not> (r' = r \<and> idxRelating a' = idxRelating a)"
    proof (clarify, rule conjI)
      fix a' r' E' assume m: "(a', r', E') \<in> set post"
      then have m': "(a', r', E') \<in> set ?recs" by (simp add: assms(6))
      show "idxRelated a' \<noteq> idxRelating a"
        using idx_separated [OF assms(1,2) here m'] by simp
      show "\<not> (r' = r \<and> idxRelating a' = idxRelating a)"
        using last m idxRelating_eq [OF assms(1) here, of a'] by auto
    qed
    have "slot ?M r (idxRelating a) = Some E"
      using slot_indexRecords_forward [OF assms(6) _ post] idx_separated [OF assms(1,2) here here]
      by simp
    then show ?thesis
      using idx_known(1) [OF assms(1) here]
      by (simp add: getEntityRelations_slot [OF maps] idxRelating_def)
  qed
  have inv: "\<exists>rs. getEntityRelations indexer' model e (forRelated a) = Some rs \<and> r \<in> set rs"
    if e: "e \<in> set E" for e
  proof -
    have sep: "\<forall>(a', r', E') \<in> set ?recs. idxRelating a' \<noteq> idxRelated a"
      using idx_separated [OF assms(1,2) _ here] by auto
    have mem: "r \<in> set (backRefsIdx ?recs e (idxRelated a))"
      using backRefsIdx_member [OF here e] .
    then have "slot ?M e (idxRelated a) = Some (backRefsIdx ?recs e (idxRelated a))"
      by (auto simp: slot_indexRecords_inverse [OF sep] slot_empty)
    with mem show ?thesis
      using idx_known(2) [OF assms(1) here]
      by (simp add: getEntityRelations_slot [OF maps] idxRelated_def)
  qed
  from fwd inv show ?thesis by blast
qed

theorem process_bidirectional_last_record_witness:
  "knownRoles sampleTable \<and> separatedRoles sampleTable \<and> hasProperties aggregatesModel
   \<and> relationMaps emptyIndexer (uuid aggregatesModel) = None
   \<and> recordsOf sampleTable aggregatesModel =
       [(\<lparr>forRelating = ''IsDecomposedBy'', forRelated = ''Decomposes''\<rparr>, 1, [2, 4])] @
       (\<lparr>forRelating = ''IsDecomposedBy'', forRelated = ''Decomposes''\<rparr>, 1, [3, 4]) # []
   \<and> getEntityRelations (snd (process sampleTable emptyIndexer aggregatesModel)) aggregatesModel 1
        ''IsDecomposedBy'' = Some [3, 4]
   \<and> (\<exists>rs. getEntityRelations (snd (process sampleTable emptyIndexer aggregatesModel)) aggregatesModel 3
        ''Decomposes'' = Some rs \<and> 1 \<in> set rs)"
proof -
  have h: "hasProperties aggregatesModel" by (simp add: aggregatesModel_def)
  have n: "relationMaps emptyIndexer (uuid aggregatesModel) = None" by (simp add: emptyIndexer_def)
  have p: "process sampleTable emptyIndexer aggregatesModel =
      (fst (process sampleTable emptyIndexer aggregatesModel),
       snd (process sampleTable emptyIndexer aggregatesModel))" by simp
  from process_bidirectional_last_record
    [OF knownRoles_sampleTable separatedRoles_sampleTable h n p recordsOf_aggregatesModel]
  show ?thesis
    using knownRoles_sampleTable separatedRoles_sampleTable h n recordsOf_aggregatesModel by simp
qed

text \<open>
  The claim as stated fails for a record that is followed by another record of the same
  kind with the same relating entity: the model below has the aggregation records
  \<open>(1, [2, 4])\<close> and \<open>(1, [3, 4])\<close>, and the forward slot of entity 1 does not hold
  \<open>[2, 4]\<close>.
\<close>

theorem forward_slot_counterexample:
  "(1, [2, 4]) \<in> set (relationRecords aggregatesModel IFCRELAGGREGATES)
   \<and> map_option forRelating (sampleTable IFCRELAGGREGATES) = Some ''IsDecomposedBy''
   \<and> getEntityRelations (snd (process sampleTable emptyIndexer aggregatesModel)) aggregatesModel 1
        ''IsDecomposedBy'' \<noteq> Some [2, 4]"
  by code_simp

text \<open>
  Claim C2. When two records with the same attribute pair (the same relation kind) share
  the relating entity \<open>r\<close>, and the second is the last record for \<open>r\<close> and this forward
  attribute, then after indexing the forward slot of \<open>r\<close> holds the second record's
  related list only, while the inverse slot of every entity \<open>e\<close> is the list
  \<open>backRefs\<close>: the relating IDs of all records that relate \<open>e\<close> under this inverse
  attribute, in processing order, duplicates kept (and the slot is absent when there is no
  such record). When no record lists a related entity twice, this is one back-reference
  for each record in which \<open>e\<close> takes part.
\<close>

theorem process_forward_overwritten_inverse_accumulated:
  assumes "knownRoles tbl" and "separatedRoles tbl"
    and "hasProperties model" and "relationMaps indexer (uuid model) = None"
    and "process tbl indexer model = (result, indexer')"
    and "recordsOf tbl model = pre @ (a, r, E1) # mid @ (a, r, E2) # post"
    and "\<forall>(a', r', E') \<in> set post. \<not> (r' = r \<and> forRelating a' = forRelating a)"
  shows "getEntityRelations indexer' model r (forRelating a) = Some E2 \<and>
         (\<forall>e. getEntityRelations indexer' model e (forRelated a) =
               (case backRefs (recordsOf tbl model) e (forRelated a) of [] \<Rightarrow> None | rs \<Rightarrow> Some rs)) \<and>
         ((\<forall>(a', r', E') \<in> set (recordsOf tbl model). distinct E') \<longrightarrow>
          (\<forall>e. backRefs (recordsOf tbl model) e (forRelated a) =
                map (\<lambda>(a', r', E'). r')
                  (filter (\<lambda>(a', r', E'). forRelated a' = forRelated a \<and> e \<in> set E') (recordsOf tbl model))))"
proof -
  let ?recs = "recordsOf tbl model"
  let ?M = "indexRecords ?recs []"
  have split: "?recs = (pre @ (a, r, E1) # mid) @ (a, r, E2) # post" by (simp add: assms(6))
  have here: "(a, r, E2) \<in> set ?recs" by (simp add: assms(6))
  have maps: "relationMaps indexer' (uuid model) = Some ?M"
    using assms(5) process_fresh [OF assms(3,4), of tbl] by (auto simp: relationMaps_setRelationMap)
  have post: "\<forall>(a', r', E') \<in> set post.
      idxRelated a' \<noteq> idxRelating a \<and> \<not> (r' = r \<and> idxRelating a' = idxRelating a)"
  proof (clarify, rule conjI)
    fix a' r' E' assume m: "(a', r', E') \<in> set post"
    then have m': "(a', r', E') \<in> set ?recs" by (simp add: assms(6))
    show "idxRelated a' \<noteq> idxRelating a"
      using idx_separated [OF assms(1,2) here m'] by simp
    show "\<not> (r' = r \<and> idxRelating a' = idxRelating a)"
      using assms(7) m idxRelating_eq [OF assms(1) here, of a'] by auto
  qed
  have "slot ?M r (idxRelating a) = Some E2"
    using slot_indexRecords_forward [OF split _ post] idx_separated [OF assms(1,2) here here]
    by simp
  then have fwd: "getEntityRelations indexer' model r (forRelating a) = Some E2"
    using idx_known(1) [OF assms(1) here]
    by (simp add: getEntityRelations_slot [OF maps] idxRelating_def)
  have inv: "getEntityRelations indexer' model e (forRelated a) =
      (case backRefs ?recs e (forRelated a) of [] \<Rightarrow> None | rs \<Rightarrow> Some rs)" for e
  proof -
    have sep: "\<forall>(a', r', E') \<in> set ?recs. idxRelating a' \<noteq> idxRelated a"
      using idx_separated [OF assms(1,2) _ here] by auto
    have "\<forall>(a', r', E') \<in> set ?recs. idxRelated a' = idxRelated a \<longleftrightarrow> forRelated a' = forRelated a"
      using idxRelated_eq [OF assms(1) here] by auto
    then have "backRefsIdx ?recs e (idxRelated a) = backRefs ?recs e (forRelated a)"
      by (rule backRefs_backRefsIdx)
    then have "slot ?M e (idxRelated a) =
        (case backRefs ?recs e (forRelated a) of [] \<Rightarrow> None | rs \<Rightarrow> Some rs)"
      by (simp add: slot_indexRecords_inverse [OF sep] slot_empty split: list.splits)
    then show ?thesis
      using idx_known(2) [OF assms(1) here]
      by (simp add: getEntityRelations_slot [OF maps] idxRelated_def)
  qed
  from fwd inv backRefs_one_per_record [of ?recs _ "forRelated a"] show ?thesis by blast
qed

theorem process_forward_overwritten_inverse_accumulated_witness:
  "knownRoles sampleTable \<and> separatedRoles sampleTable \<and> hasProperties aggregatesModel
   \<and> relationMaps emptyIndexer (uuid aggregatesModel) = None
   \<and> recordsOf sampleTable aggregatesModel =
       [] @ (\<lparr>forRelating = ''IsDecomposedBy'', forRelated = ''Decomposes''\<rparr>, 1, [2, 4]) # [] @
       (\<lparr>forRelating = ''IsDecomposedBy'', forRelated = ''Decomposes''\<rparr>, 1, [3, 4]) # []
   \<and> getEntityRelations (snd (process sampleTable emptyIndexer aggregatesModel)) aggregatesModel 1
        ''IsDecomposedBy'' = Some [3, 4]
   \<and> getEntityRelations (snd (process sampleTable emptyIndexer aggregatesModel)) aggregatesModel 4
        ''Decomposes'' = Some [1, 1]
   \<and> getEntityRelations (snd (process sampleTable emptyIndexer aggregatesModel)) aggregatesModel 2
        ''Decomposes'' = Some [1]
   \<and> getEntityRelations (snd (process sampleTable emptyIndexer aggregatesModel)) aggregatesModel 7
        ''Decomposes'' = None"
proof -
  have h: "hasProperties aggregatesModel" by (simp add: aggregatesModel_def)
  have n: "relationMaps emptyIndexer (uuid aggregatesModel) = None" by (simp add: emptyIndexer_def)
  have p: "process sampleTable emptyIndexer aggregatesModel =
      (fst (process sampleTable emptyIndexer aggregatesModel),
       snd (process sampleTable emptyIndexer aggregatesModel))" by simp
  have r: "recordsOf sampleTable aggregatesModel =
       [] @ (\<lparr>forRelating = ''IsDecomposedBy'', forRelated = ''Decomposes''\<rparr>, 1, [2, 4]) # [] @
       (\<lparr>forRelating = ''IsDecomposedBy'', forRelated = ''Decomposes''\<rparr>, 1, [3, 4]) # []"
    using recordsOf_aggregatesModel by simp
  have l: "\<forall>(a', r', E') \<in> set ([] :: (InverseAttributePair \<times> int \<times> int list) list).
      \<not> (r' = 1 \<and> forRelating a' = forRelating \<lparr>forRelating = ''IsDecomposedBy'', forRelated = ''Decomposes''\<rparr>)"
    by simp
  from process_forward_overwritten_inverse_accumulated
    [OF knownRoles_sampleTable separatedRoles_sampleTable h n p r l]
  show ?thesis
    using knownRoles_sampleTable separatedRoles_sampleTable h n r
    by (simp add: backRefs_def)
qed

text \<open>
  Claim C3. If a relation map exists for the model's identifier, \<open>process\<close> returns that
  map and leaves the indexer's state as it is. So after a call of \<open>process\<close> has returned
  a relation map for a model, a second call for a model with the same identifier returns
  that same map: nothing is indexed again, no event is triggered.
\<close>

theorem process_idempotent:
  "(relationMaps indexer (uuid model) = Some relationsMap \<and> hasProperties model \<longrightarrow>
      process relToAttributesMap indexer model = (Inr relationsMap, indexer))
   \<and> (process relToAttributesMap indexer model = (Inr relationsMap, indexer') \<and>
      uuid model' = uuid model \<and> hasProperties model' \<longrightarrow>
      process relToAttributesMap indexer' model' = (Inr relationsMap, indexer'))"
proof (intro conjI impI)
  assume "relationMaps indexer (uuid model) = Some relationsMap \<and> hasProperties model"
  then show "process relToAttributesMap indexer model = (Inr relationsMap, indexer)"
    by (simp add: process_def)
next
  assume a: "process relToAttributesMap indexer model = (Inr relationsMap, indexer') \<and>
      uuid model' = uuid model \<and> hasProperties model'"
  then have "relationMaps indexer' (uuid model) = Some relationsMap"
    by (auto simp: process_def setRelationMap_def Let_def split: if_splits option.splits)
  with a show "process relToAttributesMap indexer' model' = (Inr relationsMap, indexer')"
    by (simp add: process_def)
qed

theorem process_idempotent_witness:
  "fst (process sampleTable emptyIndexer aggregatesModel) =
     Inr [(1, [(0, [3, 4])]), (2, [(1, [1])]), (4, [(1, [1, 1])]), (3, [(1, [1])])]
   \<and> uuid aggregatesModel = uuid aggregatesModel \<and> hasProperties aggregatesModel
   \<and> process sampleTable (snd (process sampleTable emptyIndexer aggregatesModel)) aggregatesModel =
       (Inr [(1, [(0, [3, 4])]), (2, [(1, [1])]), (4, [(1, [1, 1])]), (3, [(1, [1])])],
        snd (process sampleTable emptyIndexer aggregatesModel))
   \<and> onRelationsIndexed (snd (process sampleTable emptyIndexer aggregatesModel)) =
       [(''model-1'', [(1, [(0, [3, 4])]), (2, [(1, [1])]), (4, [(1, [1, 1])]), (3, [(1, [1])])])]"
proof -
  have f: "fst (process sampleTable emptyIndexer aggregatesModel) =
     Inr [(1, [(0, [3, 4])]), (2, [(1, [1])]), (4, [(1, [1, 1])]), (3, [(1, [1])])]"
    by code_simp
  have e: "onRelationsIndexed (snd (process sampleTable emptyIndexer aggregatesModel)) =
       [(''model-1'', [(1, [(0, [3, 4])]), (2, [(1, [1])]), (4, [(1, [1, 1])]), (3, [(1, [1])])])]"
    by code_simp
  have h: "hasProperties aggregatesModel" by (simp add: aggregatesModel_def)
  have p: "process sampleTable emptyIndexer aggregatesModel =
      (Inr [(1, [(0, [3, 4])]), (2, [(1, [1])]), (4, [(1, [1, 1])]), (3, [(1, [1])])],
       snd (process sampleTable emptyIndexer aggregatesModel))"
    using f by (simp add: prod_eq_iff)
  from process_idempotent [where indexer = emptyIndexer and model = aggregatesModel
      and indexer' = "snd (process sampleTable emptyIndexer aggregatesModel)" and model' = aggregatesModel
      and relationsMap = "[(1, [(0, [3, 4])]), (2, [(1, [1])]), (4, [(1, [1, 1])]), (3, [(1, [1])])]"
      and relToAttributesMap = sampleTable] p h
  have "process sampleTable (snd (process sampleTable emptyIndexer aggregatesModel)) aggregatesModel =
       (Inr [(1, [(0, [3, 4])]), (2, [(1, [1])]), (4, [(1, [1, 1])]), (3, [(1, [1])])],
        snd (process sampleTable emptyIndexer aggregatesModel))"
    by blast
  with f h e show ?thesis by simp
qed

text \<open>
  Claim C6, as amended. \<open>getEntityRelations\<close> returns \<open>null\<close> exactly when the model
  has no index, the entity has no slot table, the role name is not one of
  \<open>_inverseAttributes\<close>, or the entity's slot table has no entry under the role's index;
  it returns the empty list exactly when the slot is present and holds the empty list.
\<close>

theorem getEntityRelations_null_cases:
  "(getEntityRelations indexer model expressID relationName = None \<longleftrightarrow>
      relationMaps indexer (uuid model) = None
      \<or> (\<exists>indexMap. relationMaps indexer (uuid model) = Some indexMap \<and>
            (Map_get indexMap expressID = None
             \<or> indexOf inverseAttributes relationName = - 1
             \<or> (\<exists>slots. Map_get indexMap expressID = Some slots \<and>
                   Map_get slots (indexOf inverseAttributes relationName) = None))))
   \<and> (getEntityRelations indexer model expressID relationName = Some [] \<longleftrightarrow>
        (\<exists>indexMap slots. relationMaps indexer (uuid model) = Some indexMap \<and>
            Map_get indexMap expressID = Some slots \<and>
            indexOf inverseAttributes relationName \<noteq> - 1 \<and>
            Map_get slots (indexOf inverseAttributes relationName) = Some []))"
  by (auto simp: getEntityRelations_def Let_def split: option.splits)

theorem getEntityRelations_null_cases_witness:
  "getEntityRelations (snd (process sampleTable emptyIndexer aggregatesModel)) aggregatesModel 9
      ''Decomposes'' = None
   \<and> relationMaps (snd (process sampleTable emptyIndexer aggregatesModel)) (uuid aggregatesModel) =
       Some [(1, [(0, [3, 4])]), (2, [(1, [1])]), (4, [(1, [1, 1])]), (3, [(1, [1])])]
   \<and> Map_get [(1, [(0, [3, 4])]), (2, [(1, [1])]), (4, [(1, [1, 1])]), (3, [(1 :: int, [1 :: int])])] (9 :: int) = None"
proof -
  have m: "relationMaps (snd (process sampleTable emptyIndexer aggregatesModel)) (uuid aggregatesModel) =
       Some [(1, [(0, [3, 4])]), (2, [(1, [1])]), (4, [(1, [1, 1])]), (3, [(1, [1])])]"
    by code_simp
  have g: "Map_get [(1, [(0, [3, 4])]), (2, [(1, [1])]), (4, [(1, [1, 1])]), (3, [(1 :: int, [1 :: int])])] (9 :: int) = None"
    by code_simp
  have "getEntityRelations (snd (process sampleTable emptyIndexer aggregatesModel)) aggregatesModel 9
      ''Decomposes'' = None"
    using getEntityRelations_null_cases
      [of "snd (process sampleTable emptyIndexer aggregatesModel)" aggregatesModel 9 "''Decomposes''"]
      m g by blast
  then show ?thesis using m g by simp
qed

text \<open>
  The claim as stated fails for an entity that has a slot table without an entry for the
  role asked for: entity 1 below is indexed with its \<open>IsDecomposedBy\<close> slot only, the role
  \<open>Decomposes\<close> is recognised, and the answer is \<open>null\<close>.
\<close>

theorem missing_slot_counterexample:
  "getEntityRelations (snd (process sampleTable emptyIndexer aggregatesModel)) aggregatesModel 1
      ''Decomposes'' = None
   \<and> relationMaps (snd (process sampleTable emptyIndexer aggregatesModel)) (uuid aggregatesModel) =
       Some [(1, [(0, [3, 4])]), (2, [(1, [1])]), (4, [(1, [1, 1])]), (3, [(1, [1])])]
   \<and> Map_get [(1, [(0, [3, 4])]), (2, [(1, [1])]), (4, [(1, [1, 1])]), (3, [(1 :: int, [1 :: int])])] (1 :: int)
       = Some [(0, [3, 4])]
   \<and> indexOf inverseAttributes ''Decomposes'' = 1"
  by code_simp

text \<open>
  Claim C5, as amended. When the records that \<open>getRelationMap\<close> hands to the callback of
  \<open>process\<close> are, for every relation kind of the table, the records that
  \<open>processFromWebIfc\<close> reads from the lines of that type, in the same order (a line
  holds the record \<open>(r, E)\<close> when its first key starting with \<open>Relating\<close> has a handle of
  \<open>r\<close> and its first key starting with \<open>Related\<close> an array of handles of \<open>E\<close>, see
  \<open>rawRecord_line\<close>), then the two
  functions return the same relation map, each running its own copy of the two blocks:
  the same entities, slots and lists, and every slot holds what \<open>slotOfRecords\<close> says
  for that sequence of records. (The table is assumed to name attributes of
  \<open>_inverseAttributes\<close> only and to separate forward from inverse attributes: then both
  functions return, and values stand for the arrays, see \<open>process_agrees_with_store\<close>.)
\<close>

theorem process_processFromWebIfc_same_map:
  assumes "knownRoles tbl" and "separatedRoles tbl"
    and "hasProperties model" and "relationMaps indexer (uuid model) = None"
    and "\<forall>rel \<in> set ifcRels. tbl rel \<noteq> None \<longrightarrow>
           rawRecords ifcApi modelID rel = Inr (relationRecords model rel)"
  shows "\<exists>relationsMap.
           fst (process tbl indexer model) = Inr relationsMap \<and>
           fst (processFromWebIfc tbl indexer2 ifcApi modelID) = Inr relationsMap \<and>
           (\<forall>e j. slot relationsMap e j = slotOfRecords (recordsOf tbl model) e j)"
proof -
  let ?M = "indexRecords (recordsOf tbl model) []"
  have "fst (process tbl indexer model) = Inr ?M"
    by (simp add: process_fresh [OF assms(3,4)])
  moreover have "fst (processFromWebIfc tbl indexer2 ifcApi modelID) = Inr ?M"
    by (simp add: processFromWebIfc_def foldE_webIfcRel [OF assms(5)] recordsOf_def)
  moreover have "\<forall>(a, r, E) \<in> set (recordsOf tbl model). \<forall>(a', r', E') \<in> set (recordsOf tbl model).
      idxRelating a \<noteq> idxRelated a'"
    using idx_separated [OF assms(1,2)] by fastforce
  then have "slot ?M e j = slotOfRecords (recordsOf tbl model) e j" for e j
    by (rule slot_indexRecords_slotOfRecords)
  ultimately show ?thesis by blast
qed

theorem process_processFromWebIfc_same_map_witness:
  "knownRoles sampleTable \<and> separatedRoles sampleTable \<and> hasProperties aggregatesModel
   \<and> relationMaps emptyIndexer (uuid aggregatesModel) = None
   \<and> rawRecords aggregatesApi 0 IFCRELAGGREGATES = Inr [(1, [2, 4]), (1, [3, 4])]
   \<and> relationRecords aggregatesModel IFCRELAGGREGATES = [(1, [2, 4]), (1, [3, 4])]
   \<and> fst (process sampleTable emptyIndexer aggregatesModel) =
       Inr [(1, [(0, [3, 4])]), (2, [(1, [1])]), (4, [(1, [1, 1])]), (3, [(1, [1])])]
   \<and> fst (processFromWebIfc sampleTable emptyIndexer aggregatesApi 0) =
       Inr [(1, [(0, [3, 4])]), (2, [(1, [1])]), (4, [(1, [1, 1])]), (3, [(1, [1])])]
   \<and> slotOfRecords (recordsOf sampleTable aggregatesModel) 1 0 = Some [3, 4]
   \<and> slotOfRecords (recordsOf sampleTable aggregatesModel) 4 1 = Some [1, 1]
   \<and> slotOfRecords (recordsOf sampleTable aggregatesModel) 4 0 = None"
proof -
  have h: "hasProperties aggregatesModel" by (simp add: aggregatesModel_def)
  have n: "relationMaps emptyIndexer (uuid aggregatesModel) = None" by (simp add: emptyIndexer_def)
  have r1: "rawRecords aggregatesApi 0 IFCRELAGGREGATES = Inr [(1, [2, 4]), (1, [3, 4])]" by code_simp
  have r2: "relationRecords aggregatesModel IFCRELAGGREGATES = [(1, [2, 4]), (1, [3, 4])]" by code_simp
  have p: "fst (process sampleTable emptyIndexer aggregatesModel) =
       Inr [(1, [(0, [3, 4])]), (2, [(1, [1])]), (4, [(1, [1, 1])]), (3, [(1, [1])])]"
    by code_simp
  have s: "slot [(1, [(0, [3, 4])]), (2, [(1, [1])]), (4, [(1, [1, 1])]), (3, [(1 :: int, [1 :: int])])] 1 0 = Some [3, 4]"
    "slot [(1, [(0, [3, 4])]), (2, [(1, [1])]), (4, [(1, [1, 1])]), (3, [(1 :: int, [1 :: int])])] 4 1 = Some [1, 1]"
    "slot [(1, [(0, [3, 4])]), (2, [(1, [1])]), (4, [(1, [1, 1])]), (3, [(1 :: int, [1 :: int])])] 4 0 = None"
    by code_simp+
  from process_processFromWebIfc_same_map
    [OF knownRoles_sampleTable separatedRoles_sampleTable h n rawRecords_aggregatesApi, of emptyIndexer]
  obtain relationsMap where m: "fst (process sampleTable emptyIndexer aggregatesModel) = Inr relationsMap"
    "fst (processFromWebIfc sampleTable emptyIndexer aggregatesApi 0) = Inr relationsMap"
    "\<forall>e j. slot relationsMap e j = slotOfRecords (recordsOf sampleTable aggregatesModel) e j"
    by blast
  from m(1) p have e: "relationsMap = [(1, [(0, [3, 4])]), (2, [(1, [1])]), (4, [(1, [1, 1])]), (3, [(1, [1])])]"
    by simp
  from m(3) [unfolded e] s have
    "slotOfRecords (recordsOf sampleTable aggregatesModel) 1 0 = Some [3, 4]"
    "slotOfRecords (recordsOf sampleTable aggregatesModel) 4 1 = Some [1, 1]"
    "slotOfRecords (recordsOf sampleTable aggregatesModel) 4 0 = None"
    by simp_all
  with m(2) [unfolded e] p
  show ?thesis
    using knownRoles_sampleTable separatedRoles_sampleTable h n r1 r2 by simp
qed

text \<open>
  The claim as stated fails when the two paths see the same set of records in another
  order. The model below hands the aggregation records \<open>(1, [2, 4])\<close> and
  \<open>(1, [3, 4])\<close> to the callback in this order; the lines of the file are the same two
  records, enumerated in the other order. The forward slot of entity 1 then holds
  \<open>[3, 4]\<close> after \<open>process\<close> and \<open>[2, 4]\<close> after \<open>processFromWebIfc\<close>, and the
  entities come in another order.
\<close>

theorem record_order_counterexample:
  "rawRecords reversedApi 0 IFCRELAGGREGATES = Inr [(1, [3, 4]), (1, [2, 4])]
   \<and> relationRecords aggregatesModel IFCRELAGGREGATES = [(1, [2, 4]), (1, [3, 4])]
   \<and> set [(1 :: int, [3 :: int, 4]), (1, [2, 4])] = set [(1, [2, 4]), (1, [3, 4])]
   \<and> fst (process sampleTable emptyIndexer aggregatesModel) =
       Inr [(1, [(0, [3, 4])]), (2, [(1, [1])]), (4, [(1, [1, 1])]), (3, [(1, [1])])]
   \<and> fst (processFromWebIfc sampleTable emptyIndexer reversedApi 0) =
       Inr [(1, [(0, [2, 4])]), (3, [(1, [1])]), (4, [(1, [1, 1])]), (2, [(1, [1])])]"
  by code_simp

text \<open>
  Claim C4. For every relation map \<open>m\<close> (a \<open>Map\<close> of \<open>Map\<close>s, so with distinct keys),
  \<open>getRelationsMapFromJSON(serializeRelations(m))\<close> is a relation map that is structurally
  equal to \<open>m\<close>: the same entities, for each entity the same slot indices, and under
  each index the same list of identifiers in the same order.
\<close>

theorem serialize_roundtrip:
  assumes "wellFormedMap m"
  shows "\<exists>m'. getRelationsMapFromJSON (serializeRelations m) = Some m' \<and>
               wellFormedMap m' \<and> lookups m' = lookups m"
proof -
  let ?object = "fold serializeEntity m []"
  have dm: "distinct (map fst m)" using assms by (simp add: wellFormedMap_def)
  have fresh: "\<forall>e \<in> set (map fst m). ToString e \<notin> set (map fst ([] :: (string \<times> (string \<times> int list) list) list))"
    by simp
  have look: "map_of ?object (ToString e) = map_option (\<lambda>s. serializeSlots s []) (map_of m e)" for e
    using serializeObject_map [OF dm fresh, of e] by (simp split: option.splits)
  have keys: "set (map fst ?object) \<subseteq> range ToString"
    using serializeObject_keys [OF dm fresh] by (auto simp del: set_map)
  have dist: "distinct (map fst ?object)"
    using serializeObject_distinct [OF dm fresh] by simp
  have inner: "\<forall>(k, slots) \<in> set ?object. distinct (map fst slots) \<and> set (map fst slots) \<subseteq> range ToString"
  proof clarify
    fix k slots assume mem: "(k, slots) \<in> set ?object"
    then have "k \<in> set (map fst ?object)" by force
    with keys obtain e where k: "k = ToString e" by auto
    have "map_of ?object (ToString e) = Some slots"
      using mem dist k by simp
    with look [of e] obtain s where s: "map_of m e = Some s" "slots = serializeSlots s []"
      by (cases "map_of m e") auto
    have ds: "distinct (map fst s)" using wellFormedMap_slots [OF assms s(1)] .
    show "distinct (map fst slots) \<and> set (map fst slots) \<subseteq> range ToString"
      using serializeSlots_props(3) [OF ds, of "[]"] serializeSlots_range [OF ds] s(2) by simp
  qed
  have dn: "distinct (map fst ([] :: RelationsMap))" "distinct (map fst ([] :: Relations))" by simp_all
  from indexMapFrom_props [OF dist keys inner dn(1)]
  obtain m' where m': "indexMapFrom ?object [] = Some m'" "distinct (map fst m')"
    "\<forall>e. map_of m' e = (case map_of ?object (ToString e) of
                           Some slots \<Rightarrow> relationMapFrom slots [] | None \<Rightarrow> map_of [] e)"
    by blast
  have get: "getRelationsMapFromJSON (serializeRelations m) = Some m'"
    by (simp add: getRelationsMapFromJSON_def serializeRelations_def JSON_parse_def JSON_stringify_def m'(1))
  have slots: "\<exists>s'. map_of m' e = Some s' \<and> distinct (map fst s') \<and> map_of s' = map_of s"
    if s: "map_of m e = Some s" for e s
  proof -
    have ds: "distinct (map fst s)" using wellFormedMap_slots [OF assms s] .
    have "distinct (map fst ([] :: (string \<times> int list) list))" by simp
    from relationMapFrom_props
      [OF serializeSlots_props(3) [OF ds this] serializeSlots_range [OF ds] dn(2)]
    obtain s' where s': "relationMapFrom (serializeSlots s []) [] = Some s'" "distinct (map fst s')"
      "\<forall>j. map_of s' j = (case map_of (serializeSlots s []) (ToString j) of Some xs \<Rightarrow> Some xs
                            | None \<Rightarrow> map_of [] j)"
      by blast
    have "map_of s' j = map_of s j" for j
      using s'(3) serializeSlots_props(1) [OF ds, of "[]" j] by (simp split: option.splits)
    then have "map_of s' = map_of s" by (simp add: fun_eq_iff)
    moreover have "map_of m' e = Some s'"
      using m'(3) look [of e] s s'(1) by simp
    ultimately show ?thesis using s'(2) by blast
  qed
  have none: "map_of m' e = None" if "map_of m e = None" for e
    using m'(3) look [of e] that by simp
  have "lookups m' e = lookups m e" for e
  proof (cases "map_of m e")
    case None
    with none [OF None] show ?thesis by (simp add: lookups_def Map_get_def)
  next
    case (Some s)
    from slots [OF Some] obtain s' where "map_of m' e = Some s'" "map_of s' = map_of s" by blast
    with Some show ?thesis by (simp add: lookups_def Map_get_def fun_eq_iff)
  qed
  then have eq: "lookups m' = lookups m" by (simp add: fun_eq_iff)
  have "wellFormedMap m'"
    unfolding wellFormedMap_def list_all_iff
  proof (intro conjI ballI)
    show "distinct (map fst m')" by (rule m'(2))
  next
    fix x assume x: "x \<in> set m'"
    obtain e s' where xe: "x = (e, s')" by (cases x)
    with x m'(2) have ms: "map_of m' e = Some s'" by simp
    have "map_of m e \<noteq> None" using none [of e] ms by auto
    then obtain s where "map_of m e = Some s" by auto
    from slots [OF this] ms show "case x of (e, slots) \<Rightarrow> distinct (map fst slots)"
      by (auto simp: xe)
  qed
  with get eq show ?thesis by blast
qed

text \<open>
  The sample map shows the round trip on three entities. The entries of the result stand
  in the order of the object's keys (2, 10, -3), not in the insertion order of the
  original (10, -3, 2).
\<close>

theorem serialize_roundtrip_witness:
  "wellFormedMap sampleMap
   \<and> serializeRelations sampleMap =
       JSON [(''2'', []), (''10'', [(''0'', [3]), (''1'', [1, 2])]), (''-3'', [(''0'', [4])])]
   \<and> getRelationsMapFromJSON (serializeRelations sampleMap) =
       Some [(2, []), (10, [(0, [3]), (1, [1, 2])]), (- 3, [(0, [4])])]
   \<and> lookups [(2, []), (10, [(0, [3]), (1, [1, 2])]), (- 3, [(0, [4])])] = lookups sampleMap"
proof -
  have w: "wellFormedMap sampleMap" by code_simp
  have s: "serializeRelations sampleMap =
       JSON [(''2'', []), (''10'', [(''0'', [3]), (''1'', [1, 2])]), (''-3'', [(''0'', [4])])]"
    by code_simp
  have g: "getRelationsMapFromJSON (serializeRelations sampleMap) =
       Some [(2, []), (10, [(0, [3]), (1, [1, 2])]), (- 3, [(0, [4])])]"
    by code_simp
  from serialize_roundtrip [OF w] g
  have "lookups [(2, []), (10, [(0, [3]), (1, [1, 2])]), (- 3, [(0, [4])])] = lookups sampleMap"
    by auto
  with w s g show ?thesis by simp
qed

subsection \<open>The property facet\<close>

text \<open>
  Claim C7. For an entity whose property sets (as \<open>getPsets\<close> returns them) all have a
  name that does not match the facet's \<open>propertySet\<close> parameter, the result that
  \<open>test\<close> yields for this entity has \<open>pass = false\<close> and exactly one check record,
  labelled \<open>PropertySet\<close>, whose current value is \<open>null\<close>; this holds for every
  cardinality \<open>c\<close> of the facet, which is only copied into the result.
\<close>

theorem test_no_matching_property_set:
  assumes "test matches (this\<lparr> cardinality := c \<rparr>) indexer entities model = Inr results"
    and "i < length entities" and "entities ! i = (expressID, attrs)"
    and "getPsets indexer model expressID = Inr sets"
    and "\<forall>pset \<in> set sets. \<not> matches (setName pset) (propertySet this) ''PropertySet''"
  shows "resultExpressID (results ! i) = expressID
       \<and> resultPass (results ! i) = False
       \<and> resultChecks (results ! i) =
           [\<lparr> checkParameter = ''PropertySet'', currentValue = JNull,
              requiredValue = parameter (propertySet this), checkPass = False \<rparr>]
       \<and> resultCardinality (results ! i) = c"
proof -
  let ?f = "this\<lparr> cardinality := c \<rparr>"
  have r: "testEntity matches ?f indexer model (expressID, attrs) = Inr (results ! i)"
    using mapE_nth [OF assms(1) [unfolded test_def] assms(2)] assms(3) by simp
  then obtain globalId where g: "getProp attrs ''GlobalId'' = Inr globalId"
    using testEntity_GlobalId by blast
  have "\<forall>pset \<in> set sets. \<not> matches (setName pset) (propertySet ?f) ''PropertySet''"
    using assms(5) by simp
  from testEntity_no_matching_property_set [where matches = matches and this = ?f, OF g assms(4) this] r
  show ?thesis by auto
qed

theorem test_no_matching_property_set_witness:
  "test specMatches (demoFacet ''Pset_Missing'' ''Width'' None \<lparr> cardinality := prohibited \<rparr>)
        demoIndexer [(1, demoProperties 1)] demoModel =
       Inr [\<lparr> resultGuid = JStr ''guid-1'', resultExpressID = 1, resultPass = False,
              resultChecks = [\<lparr> checkParameter = ''PropertySet'', currentValue = JNull,
                                requiredValue = JStr ''Pset_Missing'', checkPass = False \<rparr>],
              resultCardinality = prohibited \<rparr>]
   \<and> getPsets demoIndexer demoModel 1 = Inr [demoResolvedPset]
   \<and> \<not> specMatches (setName demoResolvedPset) (simple (JStr ''Pset_Missing'')) ''PropertySet''"
proof -
  let ?f = "demoFacet ''Pset_Missing'' ''Width'' None"
  have n: "\<not> specMatches (setName demoResolvedPset) (simple (JStr ''Pset_Missing'')) ''PropertySet''"
    by code_simp
  have p: "propertySet ?f = simple (JStr ''Pset_Missing'')"
    by (simp add: demoFacet_def)
  have a: "\<forall>pset \<in> set [demoResolvedPset].
      \<not> specMatches (setName pset) (propertySet ?f) ''PropertySet''"
    using n p by simp
  have g: "map_sum id (map resultGuid)
      (test specMatches (?f \<lparr> cardinality := prohibited \<rparr>) demoIndexer [(1, demoProperties 1)] demoModel) =
      Inr [JStr ''guid-1'']"
    by code_simp
  then obtain results where t: "test specMatches (?f \<lparr> cardinality := prohibited \<rparr>) demoIndexer
      [(1, demoProperties 1)] demoModel = Inr results"
    and rg: "map resultGuid results = [JStr ''guid-1'']"
    by (cases "test specMatches (?f \<lparr> cardinality := prohibited \<rparr>) demoIndexer
      [(1, demoProperties 1)] demoModel") auto
  from rg obtain res where res: "results = [res]" "resultGuid res = JStr ''guid-1''" by auto
  from test_no_matching_property_set
    [where matches = specMatches and this = ?f and c = prohibited and i = 0, OF t _ _ getPsets_demo a]
  have "resultExpressID res = 1 \<and> resultPass res = False
       \<and> resultChecks res =
           [\<lparr> checkParameter = ''PropertySet'', currentValue = JNull,
              requiredValue = JStr ''Pset_Missing'', checkPass = False \<rparr>]
       \<and> resultCardinality res = prohibited"
    by (simp add: res p simple_def)
  with res(2) have "res = \<lparr> resultGuid = JStr ''guid-1'', resultExpressID = 1, resultPass = False,
              resultChecks = [\<lparr> checkParameter = ''PropertySet'', currentValue = JNull,
                                requiredValue = JStr ''Pset_Missing'', checkPass = False \<rparr>],
              resultCardinality = prohibited \<rparr>"
    by (cases res) simp
  with t res(1) getPsets_demo n show ?thesis by simp
qed




text \<open>
  Claim C9. For an item of type list value or enumerated value whose value attribute is
  an array of objects, evaluated against a value constraint, the check passes exactly
  when some element's value matches the constraint, and the one check record emitted
  has the list of all element values as its current value.
\<close>

theorem evalValue_list_any_element:
  assumes "facetValue this = Some fv"
    and "getValueKey attrs = Inr (Some valueKey)"
    and "getProp attrs valueKey = Inr (JArr els)"
    and "getProp attrs ''type'' = Inr (JNum t)"
    and "t = IFCPROPERTYLISTVALUE \<or> t = IFCPROPERTYENUMERATEDVALUE"
    and "list_all truthy els"
  shows "evalValue matches this attrs cs =
           Inr (list_ex (\<lambda>el. matches (valueOf el) fv ''Value'') els,
                cs @ [\<lparr> checkParameter = ''Value'', currentValue = JArr (map valueOf els),
                         requiredValue = parameter fv,
                         checkPass = list_ex (\<lambda>el. matches (valueOf el) fv ''Value'') els \<rparr>])"
proof -
  have name: "getProp (JArr els) ''name'' = Inr JUndefined" by (simp add: getProp_def)
  have fv: "labelParameter JUndefined fv = fv" by (simp add: labelParameter_def strictEquals_def)
  have ty: "strictEquals (JNum t) (JNum IFCPROPERTYLISTVALUE) \<or> strictEquals (JNum t) (JNum IFCPROPERTYENUMERATEDVALUE)"
    using assms(5) by (auto simp: strictEquals_def)
  have f: "(case find (\<lambda>el. matches (case getProp el ''value'' of Inr v \<Rightarrow> v | Inl _ \<Rightarrow> JUndefined) fv ''Value'') els of
             Some el \<Rightarrow> truthy el | None \<Rightarrow> False) = list_ex (\<lambda>el. matches (valueOf el) fv ''Value'') els"
    using find_truthy [OF assms(6), of "\<lambda>el. matches (valueOf el) fv ''Value''"]
    by (simp add: valueOf_def)
  show ?thesis
    using ty
    by (simp add: evalValue_def assms(1-4) name fv mapE_value_truthy [OF assms(6)] f Let_def)
qed

theorem evalValue_list_any_element_witness:
  "getValueKey (demoProperties 21) = Inr (Some ''EnumerationValues'')
   \<and> getProp (demoProperties 21) ''EnumerationValues'' =
       Inr (JArr [ifcValue 1 (JStr ''A'') ''IFCLABEL'', ifcValue 1 (JStr ''B'') ''IFCLABEL''])
   \<and> getProp (demoProperties 21) ''type'' = Inr (JNum IFCPROPERTYENUMERATEDVALUE)
   \<and> list_all truthy [ifcValue 1 (JStr ''A'') ''IFCLABEL'', ifcValue 1 (JStr ''B'') ''IFCLABEL'']
   \<and> evalValue specMatches (demoFacet ''Pset_Demo'' ''Tags'' (Some (simple (JStr ''B'')))) (demoProperties 21) [] =
       Inr (True, [\<lparr> checkParameter = ''Value'', currentValue = JArr [JStr ''A'', JStr ''B''],
                      requiredValue = JStr ''B'', checkPass = True \<rparr>])
   \<and> map_sum id resultPass
        (testEntity specMatches (demoFacet ''Pset_Demo'' ''Tags'' (Some (simple (JStr ''B''))))
           demoIndexer demoModel (1, demoProperties 1)) = Inr True"
proof -
  let ?els = "[ifcValue 1 (JStr ''A'') ''IFCLABEL'', ifcValue 1 (JStr ''B'') ''IFCLABEL'']"
  have v: "facetValue (demoFacet ''Pset_Demo'' ''Tags'' (Some (simple (JStr ''B'')))) = Some (simple (JStr ''B''))"
    by (simp add: demoFacet_def)
  have k: "getValueKey (demoProperties 21) = Inr (Some ''EnumerationValues'')" by code_simp
  have a: "getProp (demoProperties 21) ''EnumerationValues'' = Inr (JArr ?els)" by code_simp
  have t: "getProp (demoProperties 21) ''type'' = Inr (JNum IFCPROPERTYENUMERATEDVALUE)" by code_simp
  have o: "list_all truthy ?els" by code_simp
  have m: "list_ex (\<lambda>el. specMatches (valueOf el) (simple (JStr ''B'')) ''Value'') ?els = True" by code_simp
  have vs: "map valueOf ?els = [JStr ''A'', JStr ''B'']" by code_simp
  have e: "map_sum id resultPass
        (testEntity specMatches (demoFacet ''Pset_Demo'' ''Tags'' (Some (simple (JStr ''B''))))
           demoIndexer demoModel (1, demoProperties 1)) = Inr True" by code_simp
  from evalValue_list_any_element [where matches = specMatches and cs = "[]", OF v k a t _ o]
  have "evalValue specMatches (demoFacet ''Pset_Demo'' ''Tags'' (Some (simple (JStr ''B'')))) (demoProperties 21) [] =
       Inr (True, [\<lparr> checkParameter = ''Value'', currentValue = JArr [JStr ''A'', JStr ''B''],
                      requiredValue = JStr ''B'', checkPass = True \<rparr>])"
    unfolding m vs by (simp add: simple_def)
  with k a t o e show ?thesis by simp
qed




end
